(* ===== verification/Sctp_Prelude.thy ===== *)
theory Sctp_Prelude
  imports Main "HOL-Library.Word"
begin

text \<open>
  The prelude of the development: the names of the machine types the crate uses, the
  collections of rewrite rules, the byte-level encodings of machine words that Rust's
  \<open>to_ne_bytes\<close>, \<open>from_ne_bytes\<close>, \<open>to_be\<close>, \<open>from_be\<close> and \<open>to_be_bytes\<close>
  compute, reads and writes of a byte buffer at an offset, Rust's \<open>Result\<close> threaded
  through a state, and decimal and hexadecimal printing. Everything here is about the
  language and its standard library; the crate itself starts in \<open>Sys\<close>.
\<close>

section \<open>Machine types\<close>

type_synonym u8 = "8 word"
type_synonym u16 = "16 word"
type_synonym u32 = "32 word"
type_synonym u64 = "64 word"
type_synonym usize = "64 word"  \<comment> \<open>a 64-bit target\<close>
type_synonym i32 = "32 word"    \<comment> \<open>two's complement: read with \<open>sint\<close>\<close>
type_synonym bytes = "8 word list"

named_theorems sctp_defs \<open>definitions of the operations, unfolded by the proofs about them\<close>
named_theorems prog_apply \<open>the basic programs applied to a state\<close>
named_theorems sctp_layout \<open>sizes and offsets\<close>

section \<open>Little-endian, big-endian and native byte order\<close>

fun le_bytes :: "nat \<Rightarrow> 'a::len word \<Rightarrow> bytes" where
  "le_bytes 0 w = []"
| "le_bytes (Suc n) w = ucast w # le_bytes n (drop_bit 8 w)"

fun le_word :: "bytes \<Rightarrow> 'a::len word" where
  "le_word [] = 0"
| "le_word (b # bs) = or (ucast b) (push_bit 8 (le_word bs))"

text \<open>The byte order of the target, on which \<open>to_be\<close> and the native conversions depend.\<close>

datatype endian = Little | Big

fun ne_bytes :: "endian \<Rightarrow> nat \<Rightarrow> 'a::len word \<Rightarrow> bytes" where
  "ne_bytes Little n w = le_bytes n w"
| "ne_bytes Big n w = rev (le_bytes n w)"

fun ne_word :: "endian \<Rightarrow> bytes \<Rightarrow> 'a::len word" where
  "ne_word Little bs = le_word bs"
| "ne_word Big bs = le_word (rev bs)"

text \<open>\<open>uN::to_be_bytes\<close> and \<open>uN::from_be_bytes\<close>.\<close>

abbreviation be_bytes :: "nat \<Rightarrow> 'a::len word \<Rightarrow> bytes" where
  "be_bytes n w \<equiv> ne_bytes Big n w"

abbreviation be_word :: "bytes \<Rightarrow> 'a::len word" where
  "be_word bs \<equiv> ne_word Big bs"

text \<open>\<open>uN::swap_bytes\<close>, and \<open>uN::to_be\<close> and \<open>uN::from_be\<close> on a target of the given order.\<close>

definition swap_bytes :: "nat \<Rightarrow> 'a::len word \<Rightarrow> 'a word" where
  "swap_bytes n w = le_word (rev (le_bytes n w))"

definition to_be :: "endian \<Rightarrow> nat \<Rightarrow> 'a::len word \<Rightarrow> 'a word" where
  "to_be e n w = (case e of Little \<Rightarrow> swap_bytes n w | Big \<Rightarrow> w)"

definition from_be :: "endian \<Rightarrow> nat \<Rightarrow> 'a::len word \<Rightarrow> 'a word" where
  "from_be e n w = (case e of Little \<Rightarrow> swap_bytes n w | Big \<Rightarrow> w)"

lemma length_le_bytes [simp]: "length (le_bytes n w) = n"
  by (induction n w rule: le_bytes.induct) auto

lemma length_ne_bytes [simp]: "length (ne_bytes e n w) = n"
  by (cases e) auto

lemma le_word_le_bytes: "le_word (le_bytes n w) = take_bit (8 * n) (w :: 'a::len word)"
proof (induction n w rule: le_bytes.induct)
  case (1 w)
  then show ?case by simp
next
  case (2 n w)
  show ?case
    by (rule bit_word_eqI)
      (auto simp: "2.IH" bit_or_iff bit_push_bit_iff bit_take_bit_iff bit_drop_bit_eq
        bit_unsigned_iff not_less)
qed

lemma le_word_le_bytes_full:
  "LENGTH('a::len) \<le> 8 * n \<Longrightarrow> le_word (le_bytes n w) = (w :: 'a word)"
  by (simp add: le_word_le_bytes take_bit_word_eq_self)

lemma le_bytes_le_word:
  "8 * length bs \<le> LENGTH('a::len) \<Longrightarrow> le_bytes (length bs) (le_word bs :: 'a word) = bs"
proof (induction bs)
  case Nil
  then show ?case by simp
next
  case (Cons b bs)
  have len: "8 \<le> LENGTH('a)" and rest: "8 * length bs \<le> LENGTH('a)"
    using Cons.prems by auto
  have small: "take_bit (LENGTH('a) - 8) (le_word bs :: 'a word) = le_word bs"
  proof -
    have "le_word bs = (le_word (le_bytes (length bs) (le_word bs :: 'a word)) :: 'a word)"
      using Cons.IH rest by simp
    also have "\<dots> = take_bit (8 * length bs) (le_word bs)"
      by (rule le_word_le_bytes)
    finally have t: "take_bit (8 * length bs) (le_word bs :: 'a word) = le_word bs" by simp
    have "8 * length bs \<le> LENGTH('a) - 8" using Cons.prems by simp
    then show ?thesis
      by (metis t take_bit_take_bit min.absorb2)
  qed
  have hd: "(ucast (le_word (b # bs) :: 'a word) :: 8 word) = b"
    using len by (intro bit_word_eqI)
      (auto simp: bit_or_iff bit_push_bit_iff bit_unsigned_iff)
  have tl: "drop_bit 8 (le_word (b # bs) :: 'a word) = le_word bs"
  proof (rule bit_word_eqI)
    fix n assume n: "n < LENGTH('a)"
    have "bit (le_word bs :: 'a word) n \<longleftrightarrow> n < LENGTH('a) - 8 \<and> bit (le_word bs :: 'a word) n"
      by (metis small bit_take_bit_iff)
    moreover have "\<not> bit b (8 + n)" using bit_imp_le_length by fastforce
    ultimately show "bit (drop_bit 8 (le_word (b # bs) :: 'a word)) n = bit (le_word bs :: 'a word) n"
      using n len by (auto simp: bit_drop_bit_eq bit_or_iff bit_push_bit_iff bit_unsigned_iff)
  qed
  show ?case using hd tl Cons.IH rest by simp
qed

lemma ne_word_ne_bytes:
  "LENGTH('a::len) \<le> 8 * n \<Longrightarrow> ne_word e (ne_bytes e n w) = (w :: 'a word)"
  by (cases e) (simp_all add: le_word_le_bytes_full)

lemma ne_bytes_ne_word:
  "8 * length bs \<le> LENGTH('a::len) \<Longrightarrow> ne_bytes e (length bs) (ne_word e bs :: 'a word) = bs"
  using le_bytes_le_word [of bs, where 'a = 'a] le_bytes_le_word [of "rev bs", where 'a = 'a]
  by (cases e) simp_all

lemma swap_bytes_swap_bytes:
  "LENGTH('a::len) = 8 * n \<Longrightarrow> swap_bytes n (swap_bytes n w) = (w :: 'a word)"
  using le_bytes_le_word [of "rev (le_bytes n w)", where 'a = 'a]
  by (simp add: swap_bytes_def le_word_le_bytes_full)

lemma from_be_to_be:
  "LENGTH('a::len) = 8 * n \<Longrightarrow> from_be e n (to_be e n w) = (w :: 'a word)"
  by (cases e) (simp_all add: from_be_def to_be_def swap_bytes_swap_bytes)

lemma to_be_from_be:
  "LENGTH('a::len) = 8 * n \<Longrightarrow> to_be e n (from_be e n w) = (w :: 'a word)"
  by (cases e) (simp_all add: from_be_def to_be_def swap_bytes_swap_bytes)

lemma le_bytes_0: "le_bytes n (0 :: 'a::len word) = replicate n 0"
  by (induction n) simp_all

lemma le_word_replicate_0: "le_word (replicate n 0) = 0"
  by (induction n) simp_all

lemma to_be_0: "to_be e n 0 = 0"
  by (cases e) (simp_all add: to_be_def swap_bytes_def le_bytes_0 le_word_replicate_0)

text \<open>
  What \<open>to_be\<close> is for: the native bytes of \<open>to_be w\<close> are the big-endian bytes of
  \<open>w\<close>, whatever the order of the target.
\<close>

lemma ne_bytes_to_be:
  "LENGTH('a::len) = 8 * n \<Longrightarrow> ne_bytes e n (to_be e n w) = be_bytes n (w :: 'a word)"
  using le_bytes_le_word [of "rev (le_bytes n w)", where 'a = 'a]
  by (cases e) (simp_all add: to_be_def swap_bytes_def)

lemma from_be_ne_word:
  assumes "LENGTH('a::len) = 8 * length bs"
  shows "from_be e (length bs) (ne_word e bs) = (be_word bs :: 'a word)"
  using assms le_bytes_le_word [of bs, where 'a = 'a]
  by (cases e) (simp_all add: from_be_def swap_bytes_def)

subsection \<open>The contract of a fixed-width encoding\<close>

text \<open>
  Every scalar that the crate writes into, or reads out of, a raw buffer goes through a
  fixed-width encoding: this is the interface the byte-level components rely on.
\<close>

locale byte_codec =
  fixes width :: nat
    and enc :: "'a \<Rightarrow> bytes"
    and dec :: "bytes \<Rightarrow> 'a"
  assumes length_enc: "length (enc x) = width"
    and dec_enc: "dec (enc x) = x"
    and enc_dec: "length bs = width \<Longrightarrow> enc (dec bs) = bs"
begin

lemma enc_inject: "enc x = enc y \<longleftrightarrow> x = y"
  by (metis dec_enc)

lemma dec_prefix: "dec (take width (enc x @ rest)) = x"
  by (simp add: length_enc dec_enc)

lemma dec_inject:
  "length bs = width \<Longrightarrow> length cs = width \<Longrightarrow> dec bs = dec cs \<longleftrightarrow> bs = cs"
  by (metis enc_dec)

lemma drop_enc: "drop width (enc x @ rest) = rest"
  by (simp add: length_enc)

end

lemma ne_codec:
  assumes "LENGTH('a::len) = 8 * n"
  shows "byte_codec n (ne_bytes e n) (ne_word e :: bytes \<Rightarrow> 'a word)"
proof
  fix bs :: bytes
  assume "length bs = n"
  with assms show "ne_bytes e n (ne_word e bs :: 'a word) = bs"
    using ne_bytes_ne_word [of bs e, where 'a = 'a] by simp
qed (use assms in \<open>simp_all add: ne_word_ne_bytes\<close>)

interpretation u16_ne: byte_codec 2 "ne_bytes e 2" "ne_word e :: bytes \<Rightarrow> u16" for e
  by (rule ne_codec) simp

interpretation u32_ne: byte_codec 4 "ne_bytes e 4" "ne_word e :: bytes \<Rightarrow> u32" for e
  by (rule ne_codec) simp

interpretation u128_ne: byte_codec 16 "ne_bytes e 16" "ne_word e :: bytes \<Rightarrow> 128 word" for e
  by (rule ne_codec) simp

lemmas codec_dec_enc [simp] = u16_ne.dec_enc u32_ne.dec_enc u128_ne.dec_enc
lemmas codec_enc_dec [simp] = u16_ne.enc_dec u32_ne.enc_dec u128_ne.enc_dec

section \<open>Lengths as C integers\<close>

text \<open>\<open>n as c_int\<close> of a length that fits.\<close>

lemma sint_word_of_nat: "n < 2 ^ 31 \<Longrightarrow> sint (word_of_nat n :: i32) = int n"
  by (simp add: signed_of_nat signed_take_bit_int_eq_self_iff)

section \<open>Byte buffers\<close>

text \<open>Reading and overwriting a field of a buffer through a pointer to its first byte.\<close>

definition get_at :: "nat \<Rightarrow> nat \<Rightarrow> bytes \<Rightarrow> bytes" where
  "get_at off n buf = take n (drop off buf)"

definition put_at :: "nat \<Rightarrow> bytes \<Rightarrow> bytes \<Rightarrow> bytes" where
  "put_at off bs buf = take off buf @ bs @ drop (off + length bs) buf"

lemma length_get_at [simp]: "off + n \<le> length buf \<Longrightarrow> length (get_at off n buf) = n"
  by (simp add: get_at_def)

lemma length_put_at [simp]: "off + length bs \<le> length buf \<Longrightarrow> length (put_at off bs buf) = length buf"
  by (simp add: put_at_def)

lemma get_put_same [simp]:
  "off + length bs \<le> length buf \<Longrightarrow> n = length bs \<Longrightarrow> get_at off n (put_at off bs buf) = bs"
  by (simp add: get_at_def put_at_def)

lemma get_put_before:
  "off' + n \<le> off \<Longrightarrow> off + length bs \<le> length buf \<Longrightarrow>
   get_at off' n (put_at off bs buf) = get_at off' n buf"
  by (simp add: get_at_def put_at_def take_drop min_def)

lemma get_put_after:
  "off + length bs \<le> off' \<Longrightarrow> off + length bs \<le> length buf \<Longrightarrow>
   get_at off' n (put_at off bs buf) = get_at off' n buf"
  by (simp add: get_at_def put_at_def)

text \<open>Two fields, each given by its offset and its size, that do not overlap.\<close>

definition apart :: "nat \<Rightarrow> nat \<Rightarrow> nat \<Rightarrow> nat \<Rightarrow> bool" where
  "apart off n off' n' \<longleftrightarrow> off + n \<le> off' \<or> off' + n' \<le> off"

lemma apart_sym: "apart off n off' n' \<longleftrightarrow> apart off' n' off n"
  by (auto simp: apart_def)

lemma get_put_other:
  "apart off' n off (length bs) \<Longrightarrow> off + length bs \<le> length buf \<Longrightarrow>
   get_at off' n (put_at off bs buf) = get_at off' n buf"
  using get_put_before get_put_after unfolding apart_def by blast

lemma get_at_take: "off + n \<le> m \<Longrightarrow> get_at off n (take m buf) = get_at off n buf"
  by (simp add: get_at_def drop_take min_def)

lemma get_at_append: "off + n \<le> length buf \<Longrightarrow> get_at off n (buf @ rest) = get_at off n buf"
  by (simp add: get_at_def)

section \<open>Results threaded through a state\<close>

text \<open>
  A Rust function that performs system calls and returns \<open>Result\<close> is a function of the state
  of the system that returns \<open>Inl\<close> of the error or \<open>Inr\<close> of the value, and the new
  state. \<open>and_then m f\<close> is \<open>let x = m?; f x\<close>: an error leaves at once.
\<close>

type_synonym ('e, 'a, 's) prog = "'s \<Rightarrow> ('e + 'a) \<times> 's"

definition ok :: "'a \<Rightarrow> ('e, 'a, 's) prog" where
  "ok x = (\<lambda>s. (Inr x, s))"

definition err :: "'e \<Rightarrow> ('e, 'a, 's) prog" where
  "err e = (\<lambda>s. (Inl e, s))"

definition and_then :: "('e, 'a, 's) prog \<Rightarrow> ('a \<Rightarrow> ('e, 'b, 's) prog) \<Rightarrow> ('e, 'b, 's) prog" where
  "and_then m f = (\<lambda>s. case m s of (Inl e, s') \<Rightarrow> (Inl e, s') | (Inr x, s') \<Rightarrow> f x s')"

lemma ok_apply [prog_apply]: "ok x s = (Inr x, s)"
  by (simp add: ok_def)

lemma err_apply [prog_apply]: "err e s = (Inl e, s)"
  by (simp add: err_def)

lemma and_then_Inl: "m s = (Inl e, s') \<Longrightarrow> and_then m f s = (Inl e, s')"
  by (simp add: and_then_def)

lemma and_then_Inr: "m s = (Inr x, s') \<Longrightarrow> and_then m f s = f x s'"
  by (simp add: and_then_def)

lemma and_then_ok [simp]: "and_then (ok x) f = f x"
  by (rule ext) (simp add: and_then_def prog_apply)

lemma and_then_err [simp]: "and_then (err e) f = err e"
  by (rule ext) (simp add: and_then_def prog_apply)

lemma and_then_assoc: "and_then (and_then m f) g = and_then m (\<lambda>x. and_then (f x) g)"
  by (rule ext) (auto simp: and_then_def split: prod.splits sum.splits)

lemma and_then_cases:
  assumes "and_then m f s = (r, s'')"
  obtains (fails) e where "m s = (Inl e, s'')" and "r = Inl e"
  | (goes_on) x s' where "m s = (Inr x, s')" and "f x s' = (r, s'')"
  using assms by (auto simp: and_then_def split: prod.splits sum.splits)

end
