(* ===== verification/Fmt.thy ===== *)
theory Fmt
  imports Sctp_Prelude
begin

text \<open>
  The part of Rust's \<open>core::fmt\<close> the crate's \<open>Display\<close> implementations use: \<open>{}\<close>
  on unsigned and signed integers and \<open>{:04x}\<close> on a \<open>u16\<close>, with a reader for decimal
  numbers that shows the printer loses nothing.
\<close>

section \<open>Decimal numbers\<close>

definition digit :: "nat \<Rightarrow> char" where
  "digit d = ''0123456789abcdef'' ! d"

fun dec_nat :: "nat \<Rightarrow> string" where
  "dec_nat n = (if n < 10 then [digit n] else dec_nat (n div 10) @ [digit (n mod 10)])"

declare dec_nat.simps [simp del]

definition dec_int :: "int \<Rightarrow> string" where
  "dec_int i = (if i < 0 then CHR ''-'' # dec_nat (nat (- i)) else dec_nat (nat i))"

text \<open>\<open>{}\<close> on an unsigned word and on an \<open>i32\<close>, and \<open>{:04x}\<close> on a \<open>u16\<close>.\<close>

definition fmt_u :: "'a::len word \<Rightarrow> string" where
  "fmt_u w = dec_nat (unat w)"

definition fmt_i :: "i32 \<Rightarrow> string" where
  "fmt_i w = dec_int (sint w)"

definition fmt_04x :: "u16 \<Rightarrow> string" where
  "fmt_04x w = map (\<lambda>k. digit (unat w div 16 ^ k mod 16)) [3, 2, 1, 0]"

section \<open>Reading a number back\<close>

definition digit_val :: "char \<Rightarrow> nat" where
  "digit_val c = (if of_char c < (58 :: nat) then of_char c - 48 else of_char c - 87)"

definition is_dec :: "char \<Rightarrow> bool" where
  "is_dec c \<longleftrightarrow> c \<in> set ''0123456789''"

definition read_dec :: "string \<Rightarrow> nat" where
  "read_dec = foldl (\<lambda>a c. 10 * a + digit_val c) 0"

lemma less_10_cases:
  "(d :: nat) < 10 \<Longrightarrow> d = 0 \<or> d = 1 \<or> d = 2 \<or> d = 3 \<or> d = 4 \<or> d = 5 \<or> d = 6 \<or> d = 7 \<or> d = 8 \<or> d = 9"
  by auto

lemma less_16_cases:
  "(d :: nat) < 16 \<Longrightarrow> d < 10 \<or> d = 10 \<or> d = 11 \<or> d = 12 \<or> d = 13 \<or> d = 14 \<or> d = 15"
  by auto

lemma digit_val_digit: "d < 16 \<Longrightarrow> digit_val (digit d) = d"
  by (drule less_16_cases) (auto simp: digit_val_def digit_def dest!: less_10_cases)

lemma is_dec_digit: "d < 10 \<Longrightarrow> is_dec (digit d)"
  by (auto simp: is_dec_def digit_def dest!: less_10_cases)

lemma read_dec_snoc: "read_dec (s @ [c]) = 10 * read_dec s + digit_val c"
  by (simp add: read_dec_def)

lemma read_dec_dec_nat: "read_dec (dec_nat n) = n"
proof (induction n rule: dec_nat.induct)
  case (1 n)
  show ?case
  proof (cases "n < 10")
    case True
    then show ?thesis
      by (simp add: dec_nat.simps [of n] read_dec_def digit_val_digit)
  next
    case False
    then have "read_dec (dec_nat (n div 10)) = n div 10" using "1.IH" by simp
    then show ?thesis using False
      by (simp add: dec_nat.simps [of n] read_dec_snoc digit_val_digit)
  qed
qed

lemma dec_nat_inject [simp]: "dec_nat m = dec_nat n \<longleftrightarrow> m = n"
  by (metis read_dec_dec_nat)

lemma dec_nat_digits: "c \<in> set (dec_nat n) \<Longrightarrow> is_dec c"
proof (induction n rule: dec_nat.induct)
  case (1 n)
  then show ?case
    by (cases "n < 10") (auto simp: dec_nat.simps [of n] is_dec_digit)
qed

lemma dec_nat_nonempty [simp]: "dec_nat n \<noteq> []"
  by (subst dec_nat.simps) simp

lemma not_dec_sep: "\<not> is_dec CHR ''-''" "\<not> is_dec CHR '')''" "\<not> is_dec CHR ''(''" "\<not> is_dec CHR '',''"
  "\<not> is_dec CHR '']''"
  by (simp_all add: is_dec_def)

lemma dec_int_inject: "dec_int i = dec_int j \<longleftrightarrow> i = j"
proof
  assume eq: "dec_int i = dec_int j"
  have sign: "i < 0 \<longleftrightarrow> j < 0"
    using eq dec_nat_digits [of "CHR ''-''"] not_dec_sep(1)
    by (auto simp: dec_int_def split: if_splits) (metis list.set_intros(1))+
  then show "i = j"
    using eq by (auto simp: dec_int_def split: if_splits)
qed simp

lemma fmt_u_inject [simp]: "fmt_u v = fmt_u w \<longleftrightarrow> v = w"
  by (simp add: fmt_u_def word_unat_eq_iff)

lemma fmt_i_inject [simp]: "fmt_i v = fmt_i w \<longleftrightarrow> v = w"
  by (auto simp: fmt_i_def dec_int_inject intro: signed_word_eqI)

lemma fmt_04x_length: "length (fmt_04x w) = 4"
  by (simp add: fmt_04x_def)

lemma four_hex_digits:
  assumes "(n :: nat) < 65536"
  shows "n = 16 * (16 * (16 * (n div 4096 mod 16) + n div 256 mod 16) + n div 16 mod 16) + n mod 16"
proof -
  have "n div 256 = n div 16 div 16" and "n div 4096 = n div 16 div 16 div 16"
    by (simp_all add: div_mult2_eq [symmetric])
  moreover have "n div 4096 mod 16 = n div 4096"
    using assms by (simp add: less_mult_imp_div_less)
  ultimately show ?thesis
    by (simp only:) (simp add: mult_div_mod_eq)
qed

lemma fmt_04x_inject [simp]: "fmt_04x v = fmt_04x w \<longleftrightarrow> v = w"
proof
  assume eq: "fmt_04x v = fmt_04x w"
  have "unat v div 16 ^ k mod 16 = unat w div 16 ^ k mod 16" if "k \<in> {0, 1, 2, 3}" for k
  proof -
    have "digit (unat v div 16 ^ k mod 16) = digit (unat w div 16 ^ k mod 16)"
      using eq that by (auto simp: fmt_04x_def)
    then show ?thesis by (metis digit_val_digit mod_less_divisor zero_less_numeral)
  qed
  from this [of 0] this [of 1] this [of 2] this [of 3]
  have "unat v = unat w"
    using four_hex_digits [of "unat v"] four_hex_digits [of "unat w"] unsigned_less [where 'a = nat and w = v] unsigned_less [where 'a = nat and w = w]
    by simp
  then show "v = w" by (simp add: word_unat_eq_iff)
qed simp

end
