(* ===== verification/Sys.thy ===== *)
theory Sys
  imports Sctp_Prelude
begin

text \<open>
  \<open>src/sys.rs\<close>: the constants and the \<open>#[repr(C)]\<close> structures that the crate shares with the
  kernel. The layout of a structure is computed by the C rule (\<open>repr_c_offsets\<close>): a scalar
  field is aligned to its size, the structure to its widest field. The foreign functions that the
  file declares are parameters of the model, in \<open>Kernel\<close>.
\<close>

unbundle bit_operations_syntax

section \<open>Constants\<close>

definition IPPROTO_SCTP :: i32 where
  "IPPROTO_SCTP = 132"

definition SOL_SCTP :: i32 where
  "SOL_SCTP = 132"

definition SCTP_RTOINFO :: i32 where
  "SCTP_RTOINFO = 0"

definition SCTP_INITMSG :: i32 where
  "SCTP_INITMSG = 2"

definition SCTP_NODELAY :: i32 where
  "SCTP_NODELAY = 3"

definition SCTP_AUTOCLOSE :: i32 where
  "SCTP_AUTOCLOSE = 4"

definition SCTP_PRIMARY_ADDR :: i32 where
  "SCTP_PRIMARY_ADDR = 7"

definition SCTP_EVENTS :: i32 where
  "SCTP_EVENTS = 11"

definition SCTP_MAXSEG :: i32 where
  "SCTP_MAXSEG = 13"

definition SCTP_STATUS :: i32 where
  "SCTP_STATUS = 14"

definition SCTP_RECVRCVINFO :: i32 where
  "SCTP_RECVRCVINFO = 32"

definition SCTP_RECVNXTINFO :: i32 where
  "SCTP_RECVNXTINFO = 33"

definition SCTP_BINDX_ADD_ADDR :: i32 where
  "SCTP_BINDX_ADD_ADDR = 0x01"

definition SCTP_BINDX_REM_ADDR :: i32 where
  "SCTP_BINDX_REM_ADDR = 0x02"

definition SCTP_UNORDERED :: u32 where
  "SCTP_UNORDERED = 0x0001"

definition SCTP_ADDR_OVER :: u32 where
  "SCTP_ADDR_OVER = 0x0002"

definition SCTP_ABORT :: u32 where
  "SCTP_ABORT = 0x0004"

definition SCTP_EOF :: u32 where
  "SCTP_EOF = 0x0200"

definition SCTP_SN_TYPE_BASE :: u16 where
  "SCTP_SN_TYPE_BASE = push_bit 15 1"

definition SCTP_ASSOC_CHANGE :: u16 where
  "SCTP_ASSOC_CHANGE = SCTP_SN_TYPE_BASE OR 0x0001"

definition SCTP_PEER_ADDR_CHANGE :: u16 where
  "SCTP_PEER_ADDR_CHANGE = SCTP_SN_TYPE_BASE OR 0x0002"

definition SCTP_REMOTE_ERROR :: u16 where
  "SCTP_REMOTE_ERROR = SCTP_SN_TYPE_BASE OR 0x0003"

definition SCTP_SEND_FAILED :: u16 where
  "SCTP_SEND_FAILED = SCTP_SN_TYPE_BASE OR 0x0004"

definition SCTP_SHUTDOWN_EVENT :: u16 where
  "SCTP_SHUTDOWN_EVENT = SCTP_SN_TYPE_BASE OR 0x0005"

definition SCTP_ADAPTATION_INDICATION :: u16 where
  "SCTP_ADAPTATION_INDICATION = SCTP_SN_TYPE_BASE OR 0x0006"

definition SCTP_PARTIAL_DELIVERY_EVENT :: u16 where
  "SCTP_PARTIAL_DELIVERY_EVENT = SCTP_SN_TYPE_BASE OR 0x0007"

definition SCTP_COMM_UP :: u16 where
  "SCTP_COMM_UP = 0"

definition SCTP_COMM_LOST :: u16 where
  "SCTP_COMM_LOST = 1"

definition SCTP_RESTART :: u16 where
  "SCTP_RESTART = 2"

definition SCTP_SHUTDOWN_COMP :: u16 where
  "SCTP_SHUTDOWN_COMP = 3"

definition SCTP_CANT_STR_ASSOC :: u16 where
  "SCTP_CANT_STR_ASSOC = 4"

definition MSG_NOTIFICATION :: i32 where
  "MSG_NOTIFICATION = 0x8000"

definition MSG_EOR :: i32 where
  "MSG_EOR = 0x80"

lemmas sys_consts [sctp_defs] =
  IPPROTO_SCTP_def SOL_SCTP_def SCTP_RTOINFO_def SCTP_INITMSG_def
  SCTP_NODELAY_def SCTP_AUTOCLOSE_def SCTP_PRIMARY_ADDR_def SCTP_EVENTS_def
  SCTP_MAXSEG_def SCTP_STATUS_def SCTP_RECVRCVINFO_def SCTP_RECVNXTINFO_def
  SCTP_BINDX_ADD_ADDR_def SCTP_BINDX_REM_ADDR_def SCTP_UNORDERED_def SCTP_ADDR_OVER_def
  SCTP_ABORT_def SCTP_EOF_def SCTP_SN_TYPE_BASE_def SCTP_ASSOC_CHANGE_def
  SCTP_PEER_ADDR_CHANGE_def SCTP_REMOTE_ERROR_def SCTP_SEND_FAILED_def SCTP_SHUTDOWN_EVENT_def
  SCTP_ADAPTATION_INDICATION_def SCTP_PARTIAL_DELIVERY_EVENT_def SCTP_COMM_UP_def SCTP_COMM_LOST_def
  SCTP_RESTART_def SCTP_SHUTDOWN_COMP_def SCTP_CANT_STR_ASSOC_def MSG_NOTIFICATION_def
  MSG_EOR_def

section \<open>The layout of C structures\<close>

definition align_up :: "nat \<Rightarrow> nat \<Rightarrow> nat" where
  "align_up a off = (off + a - 1) div a * a"

text \<open>The offsets of scalar fields of the given sizes, from a first free byte on.\<close>

fun offsets_from :: "nat \<Rightarrow> nat list \<Rightarrow> nat list" where
  "offsets_from off [] = []"
| "offsets_from off (n # ns) = align_up n off # offsets_from (align_up n off + n) ns"

fun end_from :: "nat \<Rightarrow> nat list \<Rightarrow> nat" where
  "end_from off [] = off"
| "end_from off (n # ns) = end_from (align_up n off + n) ns"

definition repr_c_offsets :: "nat list \<Rightarrow> nat list" where
  "repr_c_offsets ns = offsets_from 0 ns"

definition repr_c_size :: "nat list \<Rightarrow> nat" where
  "repr_c_size ns = align_up (foldr max ns 1) (end_from 0 ns)"

text \<open>Reading a scalar field at an offset, in the byte order of the target.\<close>

definition read_u16 :: "endian \<Rightarrow> nat \<Rightarrow> bytes \<Rightarrow> u16" where
  "read_u16 e off buf = ne_word e (get_at off 2 buf)"

definition read_u32 :: "endian \<Rightarrow> nat \<Rightarrow> bytes \<Rightarrow> u32" where
  "read_u32 e off buf = ne_word e (get_at off 4 buf)"

section \<open>Structures\<close>

record SctpInitMsg =
  sinit_num_ostreams :: u16
  sinit_max_instreams :: u16
  sinit_max_attempts :: u16
  sinit_max_init_timeo :: u16

record SctpSndRcvInfo =
  sinfo_stream :: u16
  sinfo_ssn :: u16
  sinfo_flags :: u16
  sinfo_ppid :: u32
  sinfo_context :: u32
  sinfo_timetolive :: u32
  sinfo_tsn :: u32
  sinfo_cumtsn :: u32
  sinfo_assoc_id :: i32

text \<open>\<open>#[derive(Default)]\<close>.\<close>

definition default_SctpSndRcvInfo :: SctpSndRcvInfo where
  "default_SctpSndRcvInfo = \<lparr>sinfo_stream = 0, sinfo_ssn = 0, sinfo_flags = 0, sinfo_ppid = 0,
     sinfo_context = 0, sinfo_timetolive = 0, sinfo_tsn = 0, sinfo_cumtsn = 0, sinfo_assoc_id = 0\<rparr>"

record SctpEventSubscribe =
  sctp_data_io_event :: u8
  sctp_association_event :: u8
  sctp_address_event :: u8
  sctp_send_failure_event :: u8
  sctp_peer_error_event :: u8
  sctp_shutdown_event :: u8
  sctp_partial_delivery_event :: u8
  sctp_adaptation_layer_event :: u8
  sctp_authentication_event :: u8
  sctp_sender_dry_event :: u8
  sctp_stream_reset_event :: u8
  sctp_assoc_reset_event :: u8
  sctp_stream_change_event :: u8
  sctp_send_failure_event_event :: u8

definition default_SctpEventSubscribe :: SctpEventSubscribe where
  "default_SctpEventSubscribe = \<lparr>sctp_data_io_event = 1, sctp_association_event = 1,
     sctp_address_event = 0, sctp_send_failure_event = 1, sctp_peer_error_event = 0,
     sctp_shutdown_event = 1, sctp_partial_delivery_event = 0, sctp_adaptation_layer_event = 0,
     sctp_authentication_event = 0, sctp_sender_dry_event = 0, sctp_stream_reset_event = 0,
     sctp_assoc_reset_event = 0, sctp_stream_change_event = 0, sctp_send_failure_event_event = 0\<rparr>"

record SctpAssocChange =
  sac_type :: u16
  sac_flags :: u16
  sac_length :: u32
  sac_state :: u16
  sac_error :: u16
  sac_outbound_streams :: u16
  sac_inbound_streams :: u16
  sac_assoc_id :: i32

record SctpShutdownEvent =
  sse_type :: u16
  sse_flags :: u16
  sse_length :: u32
  sse_assoc_id :: i32

record SctpNotificationHeader =
  sn_type :: u16
  sn_flags :: u16
  sn_length :: u32

text \<open>\<open>std::mem::size_of\<close> of the structures, and the offsets of their fields.\<close>

definition assoc_change_fields :: "nat list" where
  "assoc_change_fields = [2, 2, 4, 2, 2, 2, 2, 4]"

definition shutdown_event_fields :: "nat list" where
  "shutdown_event_fields = [2, 2, 4, 4]"

definition notification_header_fields :: "nat list" where
  "notification_header_fields = [2, 2, 4]"

definition sizeof_assoc_change :: nat where
  "sizeof_assoc_change = repr_c_size assoc_change_fields"

definition sizeof_shutdown_event :: nat where
  "sizeof_shutdown_event = repr_c_size shutdown_event_fields"

definition sizeof_notification_header :: nat where
  "sizeof_notification_header = repr_c_size notification_header_fields"

text \<open>A structure read through a pointer to the first byte of a buffer that holds it.\<close>

definition read_assoc_change :: "endian \<Rightarrow> bytes \<Rightarrow> SctpAssocChange" where
  "read_assoc_change e buf = (let off = repr_c_offsets assoc_change_fields in
     \<lparr>sac_type = read_u16 e (off ! 0) buf, sac_flags = read_u16 e (off ! 1) buf,
      sac_length = read_u32 e (off ! 2) buf, sac_state = read_u16 e (off ! 3) buf,
      sac_error = read_u16 e (off ! 4) buf, sac_outbound_streams = read_u16 e (off ! 5) buf,
      sac_inbound_streams = read_u16 e (off ! 6) buf, sac_assoc_id = read_u32 e (off ! 7) buf\<rparr>)"

definition read_shutdown_event :: "endian \<Rightarrow> bytes \<Rightarrow> SctpShutdownEvent" where
  "read_shutdown_event e buf = (let off = repr_c_offsets shutdown_event_fields in
     \<lparr>sse_type = read_u16 e (off ! 0) buf, sse_flags = read_u16 e (off ! 1) buf,
      sse_length = read_u32 e (off ! 2) buf, sse_assoc_id = read_u32 e (off ! 3) buf\<rparr>)"

text \<open>The bytes of an option value handed to \<open>setsockopt\<close>.\<close>

definition init_msg_bytes :: "endian \<Rightarrow> SctpInitMsg \<Rightarrow> bytes" where
  "init_msg_bytes e m = ne_bytes e 2 (sinit_num_ostreams m) @ ne_bytes e 2 (sinit_max_instreams m)
     @ ne_bytes e 2 (sinit_max_attempts m) @ ne_bytes e 2 (sinit_max_init_timeo m)"

definition event_subscribe_bytes :: "SctpEventSubscribe \<Rightarrow> bytes" where
  "event_subscribe_bytes s = [sctp_data_io_event s, sctp_association_event s, sctp_address_event s,
     sctp_send_failure_event s, sctp_peer_error_event s, sctp_shutdown_event s,
     sctp_partial_delivery_event s, sctp_adaptation_layer_event s, sctp_authentication_event s,
     sctp_sender_dry_event s, sctp_stream_reset_event s, sctp_assoc_reset_event s,
     sctp_stream_change_event s, sctp_send_failure_event_event s]"

definition c_int_bytes :: "endian \<Rightarrow> i32 \<Rightarrow> bytes" where
  "c_int_bytes e v = ne_bytes e 4 v"

section \<open>Facts on layouts\<close>

lemma align_up_simps [sctp_layout]:
  "align_up 1 n = n" "align_up 2 n = (n + 1) div 2 * 2" "align_up 4 n = (n + 3) div 4 * 4"
  by (simp_all add: align_up_def)

lemma align_up_ge:
  assumes "0 < a"
  shows "off \<le> align_up a off"
proof -
  from assms have "(off + a - 1) mod a < a" by simp
  moreover have "off + a - 1 = (off + a - 1) div a * a + (off + a - 1) mod a" by simp
  ultimately show ?thesis unfolding align_up_def using assms by linarith
qed

lemma align_up_dvd: "a dvd align_up a off"
  by (simp add: align_up_def)

text \<open>
  The C rule gives fields that do not overlap: each starts where the one before has ended, or
  later, and all of them end within the structure.
\<close>

lemma end_from_ge: "\<forall>n \<in> set ns. 0 < n \<Longrightarrow> off \<le> end_from off ns"
proof (induction ns arbitrary: off)
  case Nil
  then show ?case by simp
next
  case (Cons n ns)
  then have "off \<le> align_up n off" and "align_up n off + n \<le> end_from (align_up n off + n) ns"
    by (auto intro: align_up_ge)
  then show ?case by simp
qed

lemma length_offsets_from [simp]: "length (offsets_from off ns) = length ns"
  by (induction ns arbitrary: off) auto

lemma offsets_from_bounds:
  "\<forall>n \<in> set ns. 0 < n \<Longrightarrow> i < length ns \<Longrightarrow>
   off \<le> offsets_from off ns ! i \<and> offsets_from off ns ! i + ns ! i \<le> end_from off ns"
proof (induction ns arbitrary: off i)
  case Nil
  then show ?case by simp
next
  case (Cons n ns)
  have n: "off \<le> align_up n off" using Cons.prems by (auto intro: align_up_ge)
  show ?case
  proof (cases i)
    case 0
    with n Cons.prems(1) end_from_ge [of ns "align_up n off + n"] show ?thesis by simp
  next
    case (Suc j)
    then have "align_up n off + n \<le> offsets_from (align_up n off + n) ns ! j
        \<and> offsets_from (align_up n off + n) ns ! j + ns ! j \<le> end_from (align_up n off + n) ns"
      using Cons.IH [of j "align_up n off + n"] Cons.prems by simp
    with n Suc show ?thesis by simp
  qed
qed

lemma offsets_from_disjoint:
  "\<forall>n \<in> set ns. 0 < n \<Longrightarrow> i < j \<Longrightarrow> j < length ns \<Longrightarrow>
   offsets_from off ns ! i + ns ! i \<le> offsets_from off ns ! j"
proof (induction ns arbitrary: off i j)
  case Nil
  then show ?case by simp
next
  case (Cons n ns)
  then obtain k where j: "j = Suc k" and k: "k < length ns" by (cases j) auto
  show ?case
  proof (cases i)
    case 0
    with j k Cons.prems(1) offsets_from_bounds [of ns k "align_up n off + n"] show ?thesis by simp
  next
    case (Suc i')
    with j k Cons show ?thesis by simp
  qed
qed

lemma sizeof_simps [simp]:
  "sizeof_assoc_change = 20" "sizeof_shutdown_event = 12" "sizeof_notification_header = 8"
  by (simp_all add: sizeof_assoc_change_def sizeof_shutdown_event_def sizeof_notification_header_def
      assoc_change_fields_def shutdown_event_fields_def notification_header_fields_def
      repr_c_size_def sctp_layout)

lemma offsets_simps [sctp_layout]:
  "repr_c_offsets assoc_change_fields = [0, 2, 4, 8, 10, 12, 14, 16]"
  "repr_c_offsets shutdown_event_fields = [0, 2, 4, 8]"
  by (simp_all add: repr_c_offsets_def assoc_change_fields_def shutdown_event_fields_def sctp_layout)

lemma read_u16_enc [simp]:
  "get_at off 2 buf = ne_bytes e 2 v \<Longrightarrow> read_u16 e off buf = v"
  by (simp add: read_u16_def)

lemma read_u32_enc [simp]:
  "get_at off 4 buf = ne_bytes e 4 v \<Longrightarrow> read_u32 e off buf = v"
  by (simp add: read_u32_def)

end
