(* ===== verification/Errors.thy ===== *)
theory Errors
  imports Fmt
begin

text \<open>
  \<open>src/error.rs\<close>, and the part of \<open>std::io::Error\<close> it wraps: an error is either a raw
  \<open>errno\<close> value (\<open>last_os_error\<close>, \<open>from_raw_os_error\<close>) or a kind with a message
  (\<open>Error::new\<close>).
\<close>

datatype ErrorKind = InvalidInput | InvalidData | WouldBlockKind | OtherKind

datatype io_error = Os i32 | Custom ErrorKind string

datatype SctpError =
    Io io_error
  | PeerShutdown
  | NotificationError string
  | InvalidAddress string
  | NotConnected

text \<open>
  \<open>Display\<close> of \<open>io::Error\<close>: an \<open>errno\<close> value prints the system's message and its number;
  the messages are those of the C library (\<open>strerror\<close>).
\<close>

definition display_io_error :: "(i32 \<Rightarrow> string) \<Rightarrow> io_error \<Rightarrow> string" where
  "display_io_error strerror e = (case e of
     Os n \<Rightarrow> strerror n @ '' (os error '' @ fmt_i n @ '')''
   | Custom k msg \<Rightarrow> msg)"

text \<open>\<open>#[error(...)]\<close> of \<open>thiserror\<close>: the \<open>Display\<close> of \<open>SctpError\<close>.\<close>

definition display_SctpError :: "(i32 \<Rightarrow> string) \<Rightarrow> SctpError \<Rightarrow> string" where
  "display_SctpError strerror e = (case e of
     Io x \<Rightarrow> ''I/O error: '' @ display_io_error strerror x
   | PeerShutdown \<Rightarrow> ''association shutdown by peer''
   | NotificationError s \<Rightarrow> ''received SCTP notification: '' @ s
   | InvalidAddress s \<Rightarrow> ''invalid address: '' @ s
   | NotConnected \<Rightarrow> ''not connected'')"

end
