(* ===== verification/Kernel.thy ===== *)
theory Kernel
  imports Sys Errors
begin

text \<open>
  The code the crate calls and does not contain: the constants and structure layouts of the
  \<open>libc\<close> crate, the system calls, the functions of \<open>libsctp\<close> that \<open>src/sys.rs\<close> declares, and
  the readiness interface of tokio's \<open>AsyncFd\<close>. None of it is defined here: each is a field of a
  record that the definitions of the model take as an argument, over a type \<open>'w\<close> for the state of
  the rest of the world. What the theorems rely on is named (\<open>libc_ok\<close>, \<open>recvmsg_ok\<close>, \<dots>) and
  stated as a hypothesis where it is used; \<open>linux_libc\<close> holds the values of Linux on a
  little-endian target and is used by the witnesses only.

  Each call appends an entry to a trace, so that a theorem can speak of which calls the crate
  makes, in which order, with which arguments. For the calls that create a descriptor or send a
  message the entry holds the result as well.
\<close>

unbundle bit_operations_syntax

section \<open>The constants and layouts of the C library\<close>

record libc =
  target_endian :: endian
  AF_INET :: i32
  AF_INET6 :: i32
  SOCK_STREAM :: i32
  SOCK_SEQPACKET :: i32
  SOL_SOCKET :: i32
  SO_REUSEADDR :: i32
  SO_RCVBUF :: i32
  SO_SNDBUF :: i32
  SO_ERROR :: i32
  IPPROTO_IPV6 :: i32
  IPV6_V6ONLY :: i32
  F_GETFL :: i32
  F_SETFL :: i32
  O_NONBLOCK :: i32
  SHUT_WR :: i32
  POLLOUT :: u16
  POLLERR :: u16
  POLLHUP :: u16
  POLLNVAL :: u16
  EAGAIN :: i32
  EWOULDBLOCK :: i32
  EINPROGRESS :: i32
  strerror :: "i32 \<Rightarrow> string"
  sizeof_sockaddr_in :: nat
  sizeof_sockaddr_in6 :: nat
  sizeof_sockaddr_storage :: nat
  off_family :: nat     \<comment> \<open>\<open>sa_family\<close>, \<open>sin_family\<close>, \<open>sin6_family\<close>, \<open>ss_family\<close>\<close>
  off_sin_port :: nat
  off_sin_addr :: nat
  off_sin6_port :: nat
  off_sin6_flowinfo :: nat
  off_sin6_addr :: nat
  off_sin6_scope_id :: nat

text \<open>
  The documented facts about socket addresses: the two families are different and fit a
  \<open>sa_family_t\<close>, and the fields of each structure lie apart within it, which in turn fits a
  \<open>sockaddr_storage\<close>.
\<close>

fun fields_ok :: "nat \<Rightarrow> (nat \<times> nat) list \<Rightarrow> bool" where
  "fields_ok sz [] \<longleftrightarrow> True"
| "fields_ok sz ((off, n) # fs) \<longleftrightarrow> off + n \<le> sz \<and>
     (\<forall>(off', n') \<in> set fs. apart off n off' n') \<and> fields_ok sz fs"

definition sockaddr_in_fields :: "'x libc_scheme \<Rightarrow> (nat \<times> nat) list" where
  "sockaddr_in_fields L = [(off_family L, 2), (off_sin_port L, 2), (off_sin_addr L, 4)]"

definition sockaddr_in6_fields :: "'x libc_scheme \<Rightarrow> (nat \<times> nat) list" where
  "sockaddr_in6_fields L = [(off_family L, 2), (off_sin6_port L, 2), (off_sin6_addr L, 16),
     (off_sin6_flowinfo L, 4), (off_sin6_scope_id L, 4)]"

definition libc_ok :: "'x libc_scheme \<Rightarrow> bool" where
  "libc_ok L \<longleftrightarrow>
     AF_INET L \<noteq> AF_INET6 L \<and> unat (AF_INET L) < 2 ^ 16 \<and> unat (AF_INET6 L) < 2 ^ 16 \<and>
     fields_ok (sizeof_sockaddr_in L) (sockaddr_in_fields L) \<and>
     fields_ok (sizeof_sockaddr_in6 L) (sockaddr_in6_fields L) \<and>
     sizeof_sockaddr_in L \<le> sizeof_sockaddr_storage L \<and>
     sizeof_sockaddr_in6 L \<le> sizeof_sockaddr_storage L"

definition linux_libc :: libc where
  "linux_libc = \<lparr>target_endian = Little, AF_INET = 2, AF_INET6 = 10, SOCK_STREAM = 1,
     SOCK_SEQPACKET = 5, SOL_SOCKET = 1, SO_REUSEADDR = 2, SO_RCVBUF = 8, SO_SNDBUF = 7,
     SO_ERROR = 4, IPPROTO_IPV6 = 41, IPV6_V6ONLY = 26, F_GETFL = 3, F_SETFL = 4,
     O_NONBLOCK = 2048, SHUT_WR = 1, POLLOUT = 4, POLLERR = 8, POLLHUP = 16, POLLNVAL = 32,
     EAGAIN = 11, EWOULDBLOCK = 11, EINPROGRESS = 115, strerror = (\<lambda>_. ''error''),
     sizeof_sockaddr_in = 16, sizeof_sockaddr_in6 = 28, sizeof_sockaddr_storage = 128,
     off_family = 0, off_sin_port = 2, off_sin_addr = 4, off_sin6_port = 2,
     off_sin6_flowinfo = 4, off_sin6_addr = 8, off_sin6_scope_id = 24\<rparr>"

lemma linux_libc_ok: "libc_ok linux_libc"
  by (simp add: libc_ok_def linux_libc_def sockaddr_in_fields_def sockaddr_in6_fields_def
      apart_def)

text \<open>\<open>io::Error::kind() == WouldBlock\<close>.\<close>

definition is_would_block :: "'x libc_scheme \<Rightarrow> io_error \<Rightarrow> bool" where
  "is_would_block L e = (case e of
     Os n \<Rightarrow> n = EAGAIN L \<or> n = EWOULDBLOCK L
   | Custom k msg \<Rightarrow> k = WouldBlockKind)"

section \<open>The calls\<close>

text \<open>What a receive fills in: the result, the bytes written to the read window and to the address
  buffer, and the two out-parameters.\<close>

record recv_out =
  ro_ret :: i32
  ro_data :: bytes
  ro_from :: bytes
  ro_sinfo :: SctpSndRcvInfo
  ro_flags :: i32

text \<open>What a task that awaits readiness waits for, and what a poll of that future yields.\<close>

datatype interest = READABLE | WRITABLE | WRITABLE_OR_ERROR

datatype readiness = NotReady | Ready | ReadyErr io_error

record 'w kernel = libc +
  k_errno :: "'w \<Rightarrow> i32"
  k_socket :: "i32 \<Rightarrow> i32 \<Rightarrow> i32 \<Rightarrow> 'w \<Rightarrow> i32 \<times> 'w"
  k_close :: "i32 \<Rightarrow> 'w \<Rightarrow> 'w"
  k_setsockopt :: "i32 \<Rightarrow> i32 \<Rightarrow> i32 \<Rightarrow> bytes \<Rightarrow> 'w \<Rightarrow> i32 \<times> 'w"
  k_getsockopt :: "i32 \<Rightarrow> i32 \<Rightarrow> i32 \<Rightarrow> 'w \<Rightarrow> (i32 \<times> i32) \<times> 'w"  \<comment> \<open>result and value\<close>
  k_fcntl :: "i32 \<Rightarrow> i32 \<Rightarrow> i32 option \<Rightarrow> 'w \<Rightarrow> i32 \<times> 'w"
  k_bind :: "i32 \<Rightarrow> bytes \<Rightarrow> 'w \<Rightarrow> i32 \<times> 'w"
  k_bindx :: "i32 \<Rightarrow> bytes \<Rightarrow> i32 \<Rightarrow> i32 \<Rightarrow> 'w \<Rightarrow> i32 \<times> 'w"
  k_connectx :: "i32 \<Rightarrow> bytes \<Rightarrow> i32 \<Rightarrow> 'w \<Rightarrow> (i32 \<times> i32) \<times> 'w"  \<comment> \<open>result and association\<close>
  k_listen :: "i32 \<Rightarrow> i32 \<Rightarrow> 'w \<Rightarrow> i32 \<times> 'w"
  k_accept :: "i32 \<Rightarrow> 'w \<Rightarrow> (i32 \<times> bytes) \<times> 'w"  \<comment> \<open>result and address written\<close>
  k_getsockname :: "i32 \<Rightarrow> 'w \<Rightarrow> (i32 \<times> bytes) \<times> 'w"
  k_poll :: "i32 \<Rightarrow> u16 \<Rightarrow> i32 \<Rightarrow> 'w \<Rightarrow> (i32 \<times> u16) \<times> 'w"  \<comment> \<open>result and \<open>revents\<close>\<close>
  k_shutdown :: "i32 \<Rightarrow> i32 \<Rightarrow> 'w \<Rightarrow> i32 \<times> 'w"
  k_sendmsg :: "i32 \<Rightarrow> bytes \<Rightarrow> u32 \<Rightarrow> u32 \<Rightarrow> u16 \<Rightarrow> u32 \<Rightarrow> u32 \<Rightarrow> 'w \<Rightarrow> i32 \<times> 'w"
  k_send :: "i32 \<Rightarrow> bytes \<Rightarrow> SctpSndRcvInfo \<Rightarrow> i32 \<Rightarrow> 'w \<Rightarrow> i32 \<times> 'w"
  k_recvmsg :: "i32 \<Rightarrow> nat \<Rightarrow> bool \<Rightarrow> 'w \<Rightarrow> recv_out \<times> 'w"  \<comment> \<open>whether the address is asked for\<close>
  k_peeloff :: "i32 \<Rightarrow> i32 \<Rightarrow> 'w \<Rightarrow> i32 \<times> 'w"
  k_getpaddrs :: "i32 \<Rightarrow> i32 \<Rightarrow> 'w \<Rightarrow> (i32 \<times> u64 \<times> bytes) \<times> 'w"  \<comment> \<open>count, pointer, what is there\<close>
  k_getladdrs :: "i32 \<Rightarrow> i32 \<Rightarrow> 'w \<Rightarrow> (i32 \<times> u64 \<times> bytes) \<times> 'w"
  k_freepaddrs :: "u64 \<Rightarrow> 'w \<Rightarrow> 'w"
  k_freeladdrs :: "u64 \<Rightarrow> 'w \<Rightarrow> 'w"
  k_register :: "i32 \<Rightarrow> 'w \<Rightarrow> (io_error + unit) \<times> 'w"
  k_ready :: "i32 \<Rightarrow> interest \<Rightarrow> 'w \<Rightarrow> readiness \<times> 'w"
  k_clear_ready :: "i32 \<Rightarrow> interest \<Rightarrow> 'w \<Rightarrow> 'w"

datatype call =
    Call_socket i32 i32 i32 i32  \<comment> \<open>domain, type, protocol; the descriptor returned\<close>
  | Call_close i32
  | Call_setsockopt i32 i32 i32 bytes
  | Call_getsockopt i32 i32 i32
  | Call_fcntl i32 i32 "i32 option"
  | Call_bind i32 bytes
  | Call_bindx i32 bytes i32 i32
  | Call_connectx i32 bytes i32
  | Call_listen i32 i32
  | Call_accept i32 i32  \<comment> \<open>the descriptor returned\<close>
  | Call_getsockname i32
  | Call_poll i32 u16 i32
  | Call_shutdown i32 i32
  | Call_sendmsg i32 bytes u32 u32 u16 u32 u32 i32  \<comment> \<open>the result\<close>
  | Call_send i32 bytes SctpSndRcvInfo i32 i32  \<comment> \<open>the result\<close>
  | Call_recvmsg i32 nat bool
  | Call_peeloff i32 i32 i32  \<comment> \<open>the descriptor returned\<close>
  | Call_getpaddrs i32 i32 u64  \<comment> \<open>the pointer returned\<close>
  | Call_getladdrs i32 i32 u64
  | Call_freepaddrs u64
  | Call_freeladdrs u64
  | Call_register i32
  | Call_ready i32 interest
  | Call_clear_ready i32 interest

text \<open>The system as the crate sees it: the world outside and the calls made so far.\<close>

record 'w sys =
  kern :: 'w
  trace :: "call list"

definition syscall :: "('a \<Rightarrow> call) \<Rightarrow> ('w \<Rightarrow> 'a \<times> 'w) \<Rightarrow> 'w sys \<Rightarrow> 'a \<times> 'w sys" where
  "syscall c f s = (case f (kern s) of (r, w) \<Rightarrow> (r, \<lparr>kern = w, trace = trace s @ [c r]\<rparr>))"

definition syscall_unit :: "call \<Rightarrow> ('w \<Rightarrow> 'w) \<Rightarrow> 'w sys \<Rightarrow> 'w sys" where
  "syscall_unit c f s = \<lparr>kern = f (kern s), trace = trace s @ [c]\<rparr>"

text \<open>\<open>io::Error::last_os_error()\<close>, and a C result that is negative on failure.\<close>

definition last_os_error :: "('w, 'x) kernel_scheme \<Rightarrow> 'w sys \<Rightarrow> io_error" where
  "last_os_error K s = Os (k_errno K (kern s))"

definition neg :: "i32 \<Rightarrow> bool" where
  "neg r \<longleftrightarrow> sint r < 0"

text \<open>\<open>if ret < 0 { return Err(SctpError::Io(io::Error::last_os_error())) } \<dots>\<close>\<close>

definition check_ret :: "('w, 'x) kernel_scheme \<Rightarrow> i32 \<Rightarrow> (SctpError, i32, 'w sys) prog" where
  "check_ret K r = (\<lambda>s. if neg r then (Inl (Io (last_os_error K s)), s) else (Inr r, s))"

definition checked :: "('w, 'x) kernel_scheme \<Rightarrow> ('w sys \<Rightarrow> i32 \<times> 'w sys) \<Rightarrow>
    (SctpError, i32, 'w sys) prog" where
  "checked K m = (\<lambda>s. case m s of (r, s') \<Rightarrow> check_ret K r s')"

definition close_fd :: "('w, 'x) kernel_scheme \<Rightarrow> i32 \<Rightarrow> 'w sys \<Rightarrow> 'w sys" where
  "close_fd K fd = syscall_unit (Call_close fd) (k_close K fd)"

section \<open>The contract of the calls\<close>

text \<open>
  What the code relies on of \<open>sctp_recvmsg\<close>: it never writes past the length of the read window,
  and a result that is not negative is the number of bytes it wrote.
\<close>

definition recvmsg_ok :: "('w, 'x) kernel_scheme \<Rightarrow> bool" where
  "recvmsg_ok K \<longleftrightarrow> (\<forall>fd n want w. length (ro_data (fst (k_recvmsg K fd n want w))) \<le> n \<and>
     (\<not> neg (ro_ret (fst (k_recvmsg K fd n want w))) \<longrightarrow>
        length (ro_data (fst (k_recvmsg K fd n want w))) = nat (sint (ro_ret (fst (k_recvmsg K fd n want w))))))"

text \<open>Registration with the reactor never fails.\<close>

definition registers :: "('w, 'x) kernel_scheme \<Rightarrow> bool" where
  "registers K \<longleftrightarrow> (\<forall>fd w. fst (k_register K fd w) = Inr ())"

section \<open>The descriptors a trace leaves open\<close>

text \<open>How often a call opens and closes a descriptor, and the balance of a trace.\<close>

fun opens :: "i32 \<Rightarrow> call \<Rightarrow> bool" where
  "opens fd (Call_socket _ _ _ r) \<longleftrightarrow> r = fd \<and> \<not> neg r"
| "opens fd (Call_accept _ r) \<longleftrightarrow> r = fd \<and> \<not> neg r"
| "opens fd (Call_peeloff _ _ r) \<longleftrightarrow> r = fd \<and> \<not> neg r"
| "opens fd _ \<longleftrightarrow> False"

fun closes :: "i32 \<Rightarrow> call \<Rightarrow> bool" where
  "closes fd (Call_close fd') \<longleftrightarrow> fd' = fd"
| "closes fd _ \<longleftrightarrow> False"

definition balance :: "i32 \<Rightarrow> call list \<Rightarrow> int" where
  "balance fd tr = int (length (filter (opens fd) tr)) - int (length (filter (closes fd) tr))"

lemma balance_Nil [simp]: "balance fd [] = 0"
  by (simp add: balance_def)

lemma balance_append [simp]: "balance fd (xs @ ys) = balance fd xs + balance fd ys"
  by (simp add: balance_def)

lemma balance_Cons: "balance fd (x # xs) =
    (if opens fd x then 1 else 0) - (if closes fd x then 1 else 0) + balance fd xs"
  by (simp add: balance_def)

text \<open>A call that neither opens nor closes anything and does not register a descriptor.\<close>

fun plain :: "call \<Rightarrow> bool" where
  "plain (Call_socket _ _ _ _) \<longleftrightarrow> False"
| "plain (Call_accept _ _) \<longleftrightarrow> False"
| "plain (Call_peeloff _ _ _) \<longleftrightarrow> False"
| "plain (Call_close _) \<longleftrightarrow> False"
| "plain (Call_register _) \<longleftrightarrow> False"
| "plain _ \<longleftrightarrow> True"

lemma plain_opens [simp]: "plain c \<Longrightarrow> \<not> opens fd c"
  by (cases c) auto

lemma plain_closes [simp]: "plain c \<Longrightarrow> \<not> closes fd c"
  by (cases c) auto

lemma syscall_trace [simp]: "trace (snd (syscall c f s)) = trace s @ [c (fst (f (kern s)))]"
  by (simp add: syscall_def split: prod.splits)

lemma syscall_unit_trace [simp]: "trace (syscall_unit c f s) = trace s @ [c]"
  by (simp add: syscall_unit_def)

lemma syscall_kern [simp]: "kern (snd (syscall c f s)) = snd (f (kern s))"
  by (simp add: syscall_def split: prod.splits)

lemma syscall_unit_kern [simp]: "kern (syscall_unit c f s) = f (kern s)"
  by (simp add: syscall_unit_def)

lemma syscall_fst [simp]: "fst (syscall c f s) = fst (f (kern s))"
  by (simp add: syscall_def split: prod.splits)

lemma close_fd_trace [simp]: "trace (close_fd K fd s) = trace s @ [Call_close fd]"
  by (simp add: close_fd_def)

subsection \<open>Programs that keep every descriptor as it is\<close>

definition quiet :: "('w sys \<Rightarrow> 'a \<times> 'w sys) \<Rightarrow> bool" where
  "quiet m \<longleftrightarrow> (\<forall>s. \<exists>tr. trace (snd (m s)) = trace s @ tr \<and> (\<forall>c \<in> set tr. plain c))"

named_theorems quiet_intros \<open>rules that show a program neither opens nor closes a descriptor\<close>

lemma quietI: "(\<And>s. \<exists>tr. trace (snd (m s)) = trace s @ tr \<and> (\<forall>c \<in> set tr. plain c)) \<Longrightarrow> quiet m"
  by (simp add: quiet_def)

lemma balance_plain: "\<forall>c \<in> set tr. plain c \<Longrightarrow> balance fd tr = 0"
  by (induction tr) (auto simp: balance_Cons)

lemma quiet_balance: "quiet m \<Longrightarrow> balance fd (trace (snd (m s))) = balance fd (trace s)"
  unfolding quiet_def by (metis balance_append balance_plain add.right_neutral)

lemma quiet_balance': "quiet m \<Longrightarrow> m s = (r, s') \<Longrightarrow> balance fd (trace s') = balance fd (trace s)"
  using quiet_balance [of m fd s] by simp

lemma quiet_syscall [quiet_intros]: "(\<And>r. plain (c r)) \<Longrightarrow> quiet (syscall c f)"
  by (rule quietI) simp

lemma quiet_ok [quiet_intros]: "quiet (ok x)"
  by (rule quietI) (simp add: prog_apply)

lemma quiet_err [quiet_intros]: "quiet (err e)"
  by (rule quietI) (simp add: prog_apply)

lemma quiet_and_then [quiet_intros]:
  assumes "quiet m" and "\<And>x. quiet (f x)"
  shows "quiet (and_then m f)"
proof (rule quietI)
  fix s
  obtain r s' where m: "m s = (r, s')" by fastforce
  obtain tr where tr: "trace s' = trace s @ tr" "\<forall>c \<in> set tr. plain c"
    using assms(1) m unfolding quiet_def by (metis snd_conv)
  show "\<exists>tr. trace (snd (and_then m f s)) = trace s @ tr \<and> (\<forall>c \<in> set tr. plain c)"
  proof (cases r)
    case (Inl e)
    with m tr show ?thesis by (auto simp: and_then_def)
  next
    case (Inr x)
    obtain tr' where "trace (snd (f x s')) = trace s' @ tr'" "\<forall>c \<in> set tr'. plain c"
      using assms(2) unfolding quiet_def by metis
    with m tr Inr show ?thesis by (auto simp: and_then_def)
  qed
qed

lemma quiet_check_ret [quiet_intros]: "quiet (check_ret K r)"
  by (rule quietI) (simp add: check_ret_def)

lemma quiet_pair:
  assumes "quiet m" and "\<And>x. quiet (f x)"
  shows "quiet (\<lambda>s. case m s of (r, s') \<Rightarrow> f r s')"
proof (rule quietI)
  fix s
  obtain r s' where m: "m s = (r, s')" by fastforce
  obtain tr where tr: "trace s' = trace s @ tr" "\<forall>c \<in> set tr. plain c"
    using assms(1) m unfolding quiet_def by (metis snd_conv)
  obtain tr' where "trace (snd (f r s')) = trace s' @ tr'" "\<forall>c \<in> set tr'. plain c"
    using assms(2) unfolding quiet_def by metis
  with m tr show "\<exists>tr. trace (snd (case m s of (r, s') \<Rightarrow> f r s')) = trace s @ tr \<and> (\<forall>c \<in> set tr. plain c)"
    by auto
qed

lemma quiet_checked [quiet_intros]: "quiet m \<Longrightarrow> quiet (checked K m)"
  unfolding checked_def by (intro quiet_pair quiet_check_ret)

lemma quiet_if [quiet_intros]: "quiet m \<Longrightarrow> quiet n \<Longrightarrow> quiet (if b then m else n)"
  by simp

subsection \<open>The calls of a program that succeeds\<close>

text \<open>\<open>emits m T\<close>: when \<open>m\<close> succeeds, the calls it has made are one of \<open>T\<close>.\<close>

definition emits :: "('e, 'a, 'w sys) prog \<Rightarrow> call list set \<Rightarrow> bool" where
  "emits m T \<longleftrightarrow> (\<forall>s x s'. m s = (Inr x, s') \<longrightarrow> (\<exists>tr \<in> T. trace s' = trace s @ tr))"

named_theorems emits_intros \<open>the calls of the programs that succeed\<close>

lemma emitsI: "(\<And>s x s'. m s = (Inr x, s') \<Longrightarrow> \<exists>tr \<in> T. trace s' = trace s @ tr) \<Longrightarrow> emits m T"
  by (simp add: emits_def)

lemma emitsD: "emits m T \<Longrightarrow> m s = (Inr x, s') \<Longrightarrow> \<exists>tr \<in> T. trace s' = trace s @ tr"
  by (simp add: emits_def)

lemma emits_mono: "emits m T \<Longrightarrow> T \<subseteq> U \<Longrightarrow> emits m U"
  unfolding emits_def by blast

definition followed_by :: "call list set \<Rightarrow> call list set \<Rightarrow> call list set" where
  "followed_by T U = {t @ u | t u. t \<in> T \<and> u \<in> U}"

lemma followed_by_singleton [simp]: "followed_by {t} {u} = {t @ u}"
  by (auto simp: followed_by_def)

lemma emits_ok [emits_intros]: "emits (ok x) {[]}"
  by (rule emitsI) (simp add: prog_apply)

lemma emits_err [emits_intros]: "emits (err e) {}"
  by (rule emitsI) (simp add: prog_apply)

lemma emits_and_then [emits_intros]:
  assumes "emits m T" and "\<And>x. emits (f x) U"
  shows "emits (and_then m f) (followed_by T U)"
proof (rule emitsI)
  fix s x s'
  assume "and_then m f s = (Inr x, s')"
  then show "\<exists>tr \<in> followed_by T U. trace s' = trace s @ tr"
  proof (cases rule: and_then_cases)
    case (goes_on y s1)
    obtain t u where "t \<in> T" "trace s1 = trace s @ t" "u \<in> U" "trace s' = trace s1 @ u"
      using emitsD [OF assms(1) goes_on(1)] emitsD [OF assms(2) goes_on(2)] by blast
    then show ?thesis by (intro bexI [of _ "t @ u"]) (auto simp: followed_by_def)
  qed simp
qed

lemma emits_checked [emits_intros]: "emits (checked K (syscall (\<lambda>_. c) f)) {[c]}"
  by (rule emitsI) (auto simp: checked_def check_ret_def syscall_def split: prod.splits if_splits)

lemma emits_checked_unit [emits_intros]:
  "emits (and_then (checked K (syscall (\<lambda>_. c) f)) (\<lambda>_. ok ())) {[c]}"
  using emits_and_then [OF emits_checked emits_ok] by simp

lemma emits_if [emits_intros]: "emits m T \<Longrightarrow> emits n U \<Longrightarrow> emits (if b then m else n) (if b then T else U)"
  by simp

end
