(* ===== verification/Sample_Kernel.thy ===== *)
theory Sample_Kernel
  imports Kernel
begin

text \<open>
  A concrete kernel, on which the witnesses instantiate the hypotheses of the theorems. Its world
  holds a queue of records to receive, the room of the send buffer in messages, the messages sent,
  the socket error and the last \<open>errno\<close>. A record longer than the read window is delivered in
  parts, the end mark on the last one only. It stands for nothing but itself: no theorem is about it.
\<close>

unbundle bit_operations_syntax

record sample_world =
  inq :: "(bytes \<times> i32 \<times> SctpSndRcvInfo) list"
  room :: nat
  sent :: "bytes list"
  so_error :: i32
  err_no :: i32
  reg_fails :: bool
  edge :: bool  \<comment> \<open>the readiness that a reactor keeps, for the kernels that use it\<close>

definition sample_out :: "i32 \<Rightarrow> bytes \<Rightarrow> i32 \<Rightarrow> SctpSndRcvInfo \<Rightarrow> recv_out" where
  "sample_out ret d flags sinfo = \<lparr>ro_ret = ret, ro_data = d, ro_from = [], ro_sinfo = sinfo, ro_flags = flags\<rparr>"

fun sample_recvmsg :: "nat \<Rightarrow> sample_world \<Rightarrow> recv_out \<times> sample_world" where
  "sample_recvmsg n w = (case inq w of
     [] \<Rightarrow> (sample_out (-1) [] 0 default_SctpSndRcvInfo, w\<lparr>err_no := 11\<rparr>)
   | (d, flags, sinfo) # q \<Rightarrow>
       let m = min n 1000000 in
       if length d \<le> m then (sample_out (word_of_nat (length d)) d flags sinfo, w\<lparr>inq := q\<rparr>)
       else (sample_out (word_of_nat m) (take m d) (flags AND NOT MSG_EOR) sinfo,
             w\<lparr>inq := (drop m d, flags, sinfo) # q\<rparr>))"

definition sample_sendmsg :: "bytes \<Rightarrow> sample_world \<Rightarrow> i32 \<times> sample_world" where
  "sample_sendmsg d w = (if room w = 0 then (-1, w\<lparr>err_no := 11\<rparr>)
     else (word_of_nat (length d), w\<lparr>room := room w - 1, sent := sent w @ [d]\<rparr>))"

fun sample_ready :: "interest \<Rightarrow> sample_world \<Rightarrow> readiness \<times> sample_world" where
  "sample_ready READABLE w = (if inq w = [] then NotReady else Ready, w)"
| "sample_ready _ w = (if room w = 0 then NotReady else Ready, w)"

definition sample_kernel :: "sample_world kernel" where
  "sample_kernel = libc.extend linux_libc
     \<lparr>k_errno = err_no,
      k_socket = (\<lambda>_ _ _ w. (3, w)),
      k_close = (\<lambda>_ w. w),
      k_setsockopt = (\<lambda>_ _ _ _ w. (0, w)),
      k_getsockopt = (\<lambda>_ _ _ w. ((0, so_error w), w)),
      k_fcntl = (\<lambda>_ _ _ w. (0, w)),
      k_bind = (\<lambda>_ _ w. (0, w)),
      k_bindx = (\<lambda>_ _ _ _ w. (0, w)),
      k_connectx = (\<lambda>_ _ _ w. ((0, 1), w)),
      k_listen = (\<lambda>_ _ w. (0, w)),
      k_accept = (\<lambda>_ w. ((4, []), w)),
      k_getsockname = (\<lambda>_ w. ((0, []), w)),
      k_poll = (\<lambda>_ _ _ w. ((1, 4), w)),
      k_shutdown = (\<lambda>_ _ w. (0, w)),
      k_sendmsg = (\<lambda>_ d _ _ _ _ _. sample_sendmsg d),
      k_send = (\<lambda>_ d _ _. sample_sendmsg d),
      k_recvmsg = (\<lambda>_ n _. sample_recvmsg n),
      k_peeloff = (\<lambda>_ _ w. (5, w)),
      k_getpaddrs = (\<lambda>_ _ w. ((0, 0, []), w)),
      k_getladdrs = (\<lambda>_ _ w. ((0, 0, []), w)),
      k_freepaddrs = (\<lambda>_ w. w),
      k_freeladdrs = (\<lambda>_ w. w),
      k_register = (\<lambda>_ w. (if reg_fails w then Inl (Os 24) else Inr (), w)),
      k_ready = (\<lambda>_. sample_ready),
      k_clear_ready = (\<lambda>_ _ w. w)\<rparr>"

lemma sample_calls:
  "k_errno sample_kernel = err_no" "k_socket sample_kernel = (\<lambda>_ _ _ w. (3, w))"
  "k_close sample_kernel = (\<lambda>_ w. w)" "k_setsockopt sample_kernel = (\<lambda>_ _ _ _ w. (0, w))"
  "k_getsockopt sample_kernel = (\<lambda>_ _ _ w. ((0, so_error w), w))" "k_fcntl sample_kernel = (\<lambda>_ _ _ w. (0, w))"
  "k_bind sample_kernel = (\<lambda>_ _ w. (0, w))" "k_bindx sample_kernel = (\<lambda>_ _ _ _ w. (0, w))"
  "k_connectx sample_kernel = (\<lambda>_ _ _ w. ((0, 1), w))" "k_listen sample_kernel = (\<lambda>_ _ w. (0, w))"
  "k_accept sample_kernel = (\<lambda>_ w. ((4, []), w))" "k_getsockname sample_kernel = (\<lambda>_ w. ((0, []), w))"
  "k_poll sample_kernel = (\<lambda>_ _ _ w. ((1, 4), w))" "k_peeloff sample_kernel = (\<lambda>_ _ w. (5, w))"
  "k_register sample_kernel = (\<lambda>_ w. (if reg_fails w then Inl (Os 24) else Inr (), w))"
  "k_ready sample_kernel = (\<lambda>_. sample_ready)" "k_clear_ready sample_kernel = (\<lambda>_ _ w. w)"
  "AF_INET sample_kernel = 2" "AF_INET6 sample_kernel = 10" "POLLOUT sample_kernel = 4"
  by (simp_all add: sample_kernel_def libc.defs linux_libc_def)

lemma sample_offsets: "off_family sample_kernel = 0"
  by (simp add: sample_kernel_def libc.defs linux_libc_def)

definition sample_sys :: "(bytes \<times> i32 \<times> SctpSndRcvInfo) list \<Rightarrow> nat \<Rightarrow> sample_world sys" where
  "sample_sys q n = \<lparr>kern = \<lparr>inq = q, room = n, sent = [], so_error = 0, err_no = 0, reg_fails = False, edge = True\<rparr>, trace = []\<rparr>"

lemmas sample_defs = sample_kernel_def libc.defs linux_libc_def sample_out_def sample_sendmsg_def
  sample_sys_def

lemma sample_kernel_libc [simp]: "target_endian sample_kernel = Little" "libc_ok sample_kernel"
  by (simp_all add: sample_defs libc_ok_def sockaddr_in_fields_def sockaddr_in6_fields_def apart_def)

lemma sample_recvmsg_ok: "recvmsg_ok sample_kernel"
proof -
  have "neg (-1)" by (simp add: neg_def)
  then show ?thesis
    by (auto simp: recvmsg_ok_def sample_kernel_def libc.defs sample_out_def Let_def sint_word_of_nat
        min_def split: list.splits prod.splits)
qed

end
