(* ===== verification/Ppid.thy ===== *)
theory Ppid
  imports Fmt
begin

text \<open>
  \<open>src/ppid.rs\<close>: the registry of well-known payload protocol identifiers, their names and the
  label of an identifier. The label is shown to determine the identifier.
\<close>

section \<open>The registry\<close>

definition UNSPECIFIED :: u32 where
  "UNSPECIFIED = 0"

definition IUA :: u32 where
  "IUA = 1"

definition M2UA :: u32 where
  "M2UA = 2"

definition M3UA :: u32 where
  "M3UA = 3"

definition SUA :: u32 where
  "SUA = 4"

definition M2PA :: u32 where
  "M2PA = 5"

definition V5UA :: u32 where
  "V5UA = 6"

definition H248 :: u32 where
  "H248 = 7"

definition BICC :: u32 where
  "BICC = 8"

definition TALI :: u32 where
  "TALI = 9"

definition DUA :: u32 where
  "DUA = 10"

definition ASAP :: u32 where
  "ASAP = 11"

definition ENRP :: u32 where
  "ENRP = 12"

definition S1AP :: u32 where
  "S1AP = 18"

definition X2AP :: u32 where
  "X2AP = 27"

definition NGAP :: u32 where
  "NGAP = 60"

definition XNAP :: u32 where
  "XNAP = 61"

definition F1AP :: u32 where
  "F1AP = 62"

definition E1AP :: u32 where
  "E1AP = 64"

definition DIAMETER :: u32 where
  "DIAMETER = 46"

definition DIAMETER_DTLS :: u32 where
  "DIAMETER_DTLS = 47"

lemmas ppid_consts [sctp_defs] =
  UNSPECIFIED_def IUA_def M2UA_def M3UA_def SUA_def M2PA_def V5UA_def
  H248_def BICC_def TALI_def DUA_def ASAP_def ENRP_def S1AP_def
  X2AP_def NGAP_def XNAP_def F1AP_def E1AP_def DIAMETER_def DIAMETER_DTLS_def

definition ppid_name :: "u32 \<Rightarrow> string option" where
  "ppid_name ppid =
     (if ppid = UNSPECIFIED then Some ''UNSPECIFIED''
     else if ppid = IUA then Some ''IUA''
     else if ppid = M2UA then Some ''M2UA''
     else if ppid = M3UA then Some ''M3UA''
     else if ppid = SUA then Some ''SUA''
     else if ppid = M2PA then Some ''M2PA''
     else if ppid = V5UA then Some ''V5UA''
     else if ppid = H248 then Some ''H248''
     else if ppid = BICC then Some ''BICC''
     else if ppid = TALI then Some ''TALI''
     else if ppid = DUA then Some ''DUA''
     else if ppid = ASAP then Some ''ASAP''
     else if ppid = ENRP then Some ''ENRP''
     else if ppid = S1AP then Some ''S1AP''
     else if ppid = X2AP then Some ''X2AP''
     else if ppid = NGAP then Some ''NGAP''
     else if ppid = XNAP then Some ''XNAP''
     else if ppid = F1AP then Some ''F1AP''
     else if ppid = E1AP then Some ''E1AP''
     else if ppid = DIAMETER then Some ''DIAMETER''
     else if ppid = DIAMETER_DTLS then Some ''DIAMETER_DTLS''
     else None)"

definition ppid_display :: "u32 \<Rightarrow> string" where
  "ppid_display ppid = (case ppid_name ppid of
     Some n \<Rightarrow> n @ ''('' @ fmt_u ppid @ '')''
   | None \<Rightarrow> ''PPID('' @ fmt_u ppid @ '')'')"

section \<open>Reading a label\<close>

text \<open>The number between the parentheses of a label.\<close>

definition label_number :: "string \<Rightarrow> nat" where
  "label_number s = read_dec (takeWhile is_dec (tl (dropWhile (\<lambda>c. c \<noteq> CHR ''('') s)))"

lemma ppid_name_no_paren: "ppid_name p = Some n \<Longrightarrow> CHR ''('' \<notin> set n"
  by (auto simp: ppid_name_def split: if_splits)

lemma label_number_label:
  assumes "CHR ''('' \<notin> set n"
  shows "label_number (n @ ''('' @ fmt_u (p :: u32) @ '')'') = unat p"
proof -
  have "dropWhile (\<lambda>c. c \<noteq> CHR ''('') (n @ ''('' @ fmt_u p @ '')'') = ''('' @ fmt_u p @ '')''"
    using assms by (auto simp: dropWhile_append3 dropWhile_eq_Nil_conv)
  moreover have "takeWhile is_dec (fmt_u p @ '')'') = fmt_u p"
    by (subst takeWhile_append2) (auto simp: fmt_u_def not_dec_sep dest: dec_nat_digits)
  ultimately show ?thesis
    by (simp add: label_number_def fmt_u_def read_dec_dec_nat)
qed

lemma label_number_display: "label_number (ppid_display p) = unat p"
proof (cases "ppid_name p")
  case None
  then show ?thesis
    using label_number_label [of "''PPID''" p] by (simp add: ppid_display_def)
next
  case (Some n)
  then show ?thesis
    using label_number_label [OF ppid_name_no_paren, of p n p] by (simp add: ppid_display_def)
qed

text \<open>The registry as a table.\<close>

definition ppid_table :: "(u32 \<times> string) list" where
  "ppid_table =
    [(UNSPECIFIED, ''UNSPECIFIED''), (IUA, ''IUA''), (M2UA, ''M2UA''), (M3UA, ''M3UA''), (SUA, ''SUA''),
     (M2PA, ''M2PA''), (V5UA, ''V5UA''), (H248, ''H248''), (BICC, ''BICC''), (TALI, ''TALI''),
     (DUA, ''DUA''), (ASAP, ''ASAP''), (ENRP, ''ENRP''), (S1AP, ''S1AP''), (X2AP, ''X2AP''),
     (NGAP, ''NGAP''), (XNAP, ''XNAP''), (F1AP, ''F1AP''), (E1AP, ''E1AP''), (DIAMETER, ''DIAMETER''),
     (DIAMETER_DTLS, ''DIAMETER_DTLS'')]"

lemma ppid_name_table: "ppid_name p = map_of ppid_table p"
  by (simp add: ppid_name_def ppid_table_def)

lemma ppid_table_distinct: "distinct (map snd ppid_table)"
  by (simp add: ppid_table_def)

lemma map_of_value_unique:
  "distinct (map snd t) \<Longrightarrow> map_of t p = Some n \<Longrightarrow> map_of t q = Some n \<Longrightarrow> p = q"
  by (metis distinct_map inj_onD map_of_SomeD prod.inject snd_conv)

lemma ppid_name_unique: "ppid_name p = Some n \<Longrightarrow> ppid_name q = Some n \<Longrightarrow> p = q"
  unfolding ppid_name_table by (rule map_of_value_unique [OF ppid_table_distinct])

section \<open>Properties\<close>

text \<open>
  Labels and names identify the protocol. The number in the label of any identifier, registered or
  not, is that identifier, so two identifiers with the same label are equal; and no two identifiers of
  the registry share a name.
\<close>

lemma ppid_labels_identify:
  "label_number (ppid_display p) = unat p
   \<and> (ppid_display p = ppid_display q \<longleftrightarrow> p = q)
   \<and> (ppid_name p = ppid_name q \<longleftrightarrow> p = q \<or> ppid_name p = None \<and> ppid_name q = None)"
proof -
  have "ppid_display p = ppid_display q \<longleftrightarrow> p = q"
    by (metis label_number_display word_unat_eq_iff)
  moreover have "ppid_name p = ppid_name q \<longleftrightarrow> p = q \<or> ppid_name p = None \<and> ppid_name q = None"
    by (metis ppid_name_unique option.exhaust)
  ultimately show ?thesis by (simp add: label_number_display)
qed

end
