(* ===== verification/Types.thy ===== *)
theory Types
  imports Ppid
begin

text \<open>\<open>src/types.rs\<close>: what is known of a received message beside its payload.\<close>

record RecvInfo =
  stream :: u16
  ppid :: u32
  assoc_id :: i32

definition display_RecvInfo :: "RecvInfo \<Rightarrow> string" where
  "display_RecvInfo i = ''RecvInfo [stream='' @ fmt_u (stream i) @ '', ppid='' @ ppid_display (ppid i)
     @ '', assoc_id='' @ fmt_i (assoc_id i) @ '']''"

end
