(* ===== verification/Addr.thy ===== *)
theory Addr
  imports Kernel
begin

text \<open>
  \<open>src/addr.rs\<close>: socket addresses and the raw \<open>sockaddr\<close> structures the kernel takes and
  returns, at the level of bytes. The layout of the structures and the byte order are parameters
  (\<open>libc\<close>); the theorems hold for every layout that is \<open>libc_ok\<close>.
\<close>

section \<open>Addresses\<close>

text \<open>
  \<open>std::net::SocketAddr\<close>. An IP address is the number whose big-endian bytes are its octets:
  \<open>octets()\<close> is \<open>be_bytes\<close>, \<open>Ipv6Addr::from([u8; 16])\<close> is \<open>be_word\<close>.
\<close>

datatype SocketAddr =
    V4 "32 word" u16
  | V6 "128 word" u16 u32 u32  \<comment> \<open>address, port, \<open>flowinfo\<close>, \<open>scope_id\<close>\<close>

fun port :: "SocketAddr \<Rightarrow> u16" where
  "port (V4 ip p) = p"
| "port (V6 ip p fl sc) = p"

fun is_ipv6 :: "SocketAddr \<Rightarrow> bool" where
  "is_ipv6 (V4 ip p) \<longleftrightarrow> False"
| "is_ipv6 (V6 ip p fl sc) \<longleftrightarrow> True"

section \<open>Conversions\<close>

definition zeroed_storage :: "'x libc_scheme \<Rightarrow> bytes" where
  "zeroed_storage L = replicate (sizeof_sockaddr_storage L) 0"

definition to_raw :: "'x libc_scheme \<Rightarrow> SocketAddr \<Rightarrow> bytes \<times> nat" where
  "to_raw L addr = (let e = target_endian L; storage = zeroed_storage L in
     case addr of
       V4 ip p \<Rightarrow>
         (let s1 = put_at (off_family L) (ne_bytes e 2 (ucast (AF_INET L) :: u16)) storage;
              s2 = put_at (off_sin_port L) (ne_bytes e 2 (to_be e 2 p)) s1;
              s3 = put_at (off_sin_addr L) (ne_bytes e 4 (ne_word e (be_bytes 4 ip) :: u32)) s2
          in (s3, sizeof_sockaddr_in L))
     | V6 ip p fl sc \<Rightarrow>
         (let s1 = put_at (off_family L) (ne_bytes e 2 (ucast (AF_INET6 L) :: u16)) storage;
              s2 = put_at (off_sin6_port L) (ne_bytes e 2 (to_be e 2 p)) s1;
              s3 = put_at (off_sin6_addr L) (be_bytes 16 ip) s2;
              s4 = put_at (off_sin6_flowinfo L) (ne_bytes e 4 fl) s3;
              s5 = put_at (off_sin6_scope_id L) (ne_bytes e 4 sc) s4
          in (s5, sizeof_sockaddr_in6 L)))"

definition from_raw :: "'x libc_scheme \<Rightarrow> bytes \<Rightarrow> SctpError + SocketAddr" where
  "from_raw L storage = (let e = target_endian L;
       family = (ucast (read_u16 e (off_family L) storage) :: i32) in
     if family = AF_INET L then
       Inr (V4 (from_be e 4 (read_u32 e (off_sin_addr L) storage))
               (from_be e 2 (read_u16 e (off_sin_port L) storage)))
     else if family = AF_INET6 L then
       Inr (V6 (be_word (get_at (off_sin6_addr L) 16 storage))
               (from_be e 2 (read_u16 e (off_sin6_port L) storage))
               (read_u32 e (off_sin6_flowinfo L) storage)
               (read_u32 e (off_sin6_scope_id L) storage))
     else Inl (InvalidAddress (''unsupported address family: '' @ fmt_i family)))"

fun pack :: "'x libc_scheme \<Rightarrow> SocketAddr list \<Rightarrow> bytes" where
  "pack L [] = []"
| "pack L (addr # addrs) = (case to_raw L addr of (storage, len) \<Rightarrow> take len storage @ pack L addrs)"

text \<open>
  The loop of \<open>parse_array\<close> over the memory that starts at the pointer: one entry gives the
  address it holds, if it converts, and the memory after it; an unknown family ends the loop.
\<close>

definition parse_entry :: "'x libc_scheme \<Rightarrow> bytes \<Rightarrow> (SocketAddr option \<times> bytes) option" where
  "parse_entry L p = (let family = (ucast (read_u16 (target_endian L) (off_family L) p) :: i32);
       step = (if family = AF_INET L then Some (sizeof_sockaddr_in L)
               else if family = AF_INET6 L then Some (sizeof_sockaddr_in6 L) else None) in
     case step of
       None \<Rightarrow> None
     | Some n \<Rightarrow>
         (case from_raw L (put_at 0 (take n p) (zeroed_storage L)) of
            Inr a \<Rightarrow> Some (Some a, drop n p)
          | Inl _ \<Rightarrow> Some (None, drop n p)))"

fun walk :: "(bytes \<Rightarrow> ('a option \<times> bytes) option) \<Rightarrow> nat \<Rightarrow> bytes \<Rightarrow> 'a list" where
  "walk one 0 p = []"
| "walk one (Suc n) p = (case one p of
     None \<Rightarrow> []
   | Some (Some a, p') \<Rightarrow> a # walk one n p'
   | Some (None, p') \<Rightarrow> walk one n p')"

definition parse_array :: "'x libc_scheme \<Rightarrow> bytes \<Rightarrow> i32 \<Rightarrow> SocketAddr list" where
  "parse_array L p count = walk (parse_entry L) (nat (sint count)) p"

section \<open>The contract of a self-delimiting array\<close>

text \<open>
  An array of entries of different sizes can be walked when each entry tells where it ends. This
  is what \<open>sctp_bindx\<close>, \<open>sctp_connectx\<close>, \<open>sctp_getpaddrs\<close> and \<open>sctp_getladdrs\<close> have in
  common, and what lets \<open>pack\<close> and \<open>parse_array\<close> agree.
\<close>

locale entry_codec =
  fixes enc :: "'a \<Rightarrow> bytes"
    and one :: "bytes \<Rightarrow> ('a option \<times> bytes) option"
  assumes one_enc: "one (enc a @ rest) = Some (Some a, rest)"
begin

lemma walk_concat: "walk one (length as) (concat (map enc as) @ rest) = as"
  by (induction as) (simp_all add: one_enc)

lemma walk_prefix: "n \<le> length as \<Longrightarrow> walk one n (concat (map enc as) @ rest) = take n as"
proof (induction as arbitrary: n)
  case Nil
  then show ?case by simp
next
  case (Cons a as)
  then show ?case by (cases n) (simp_all add: one_enc)
qed

lemma enc_inject: "enc a = enc b \<longleftrightarrow> a = b"
  by (metis one_enc option.inject prod.inject)

lemma concat_enc_inject: "length as = length bs \<Longrightarrow> concat (map enc as) = concat (map enc bs) \<longleftrightarrow> as = bs"
  by (metis walk_concat)

end

section \<open>Fields of the structures\<close>

lemma family_cast:
  assumes "libc_ok L"
  shows "ucast (ucast (AF_INET L) :: u16) = AF_INET L" "ucast (ucast (AF_INET6 L) :: u16) = AF_INET6 L"
proof -
  have "ucast (ucast f :: u16) = f" if "unat f < 2 ^ 16" for f :: i32
    using that by (intro word_unat_eq_iff [THEN iffD2]) (simp add: unsigned_ucast_eq unsigned_take_bit_eq take_bit_nat_eq_self)
  with assms show "ucast (ucast (AF_INET L) :: u16) = AF_INET L"
    "ucast (ucast (AF_INET6 L) :: u16) = AF_INET6 L"
    by (auto simp: libc_ok_def)
qed

lemma length_zeroed [simp]: "length (zeroed_storage L) = sizeof_sockaddr_storage L"
  by (simp add: zeroed_storage_def)

text \<open>What \<open>from_raw\<close> reads, field by field.\<close>

lemma from_raw_V4:
  assumes "libc_ok L"
    and "get_at (off_family L) 2 st = ne_bytes (target_endian L) 2 (ucast (AF_INET L) :: u16)"
    and "get_at (off_sin_port L) 2 st = be_bytes 2 p"
    and "get_at (off_sin_addr L) 4 st = be_bytes 4 ip"
  shows "from_raw L st = Inr (V4 ip p)"
proof -
  let ?e = "target_endian L"
  have "from_be ?e 4 (read_u32 ?e (off_sin_addr L) st) = ip"
    using from_be_ne_word [of "be_bytes 4 ip" ?e, where 'a = 32] assms(4)
    by (simp add: read_u32_def del: ne_bytes.simps ne_word.simps)
  moreover have "from_be ?e 2 (read_u16 ?e (off_sin_port L) st) = p"
    using from_be_ne_word [of "be_bytes 2 p" ?e, where 'a = 16] assms(3)
    by (simp add: read_u16_def del: ne_bytes.simps ne_word.simps)
  ultimately show ?thesis
    using assms(1,2) by (simp add: from_raw_def family_cast Let_def)
qed

lemma from_raw_V6:
  assumes "libc_ok L"
    and "get_at (off_family L) 2 st = ne_bytes (target_endian L) 2 (ucast (AF_INET6 L) :: u16)"
    and "get_at (off_sin6_port L) 2 st = be_bytes 2 p"
    and "get_at (off_sin6_addr L) 16 st = be_bytes 16 ip"
    and "get_at (off_sin6_flowinfo L) 4 st = ne_bytes (target_endian L) 4 fl"
    and "get_at (off_sin6_scope_id L) 4 st = ne_bytes (target_endian L) 4 sc"
  shows "from_raw L st = Inr (V6 ip p fl sc)"
proof -
  let ?e = "target_endian L"
  have "from_be ?e 2 (read_u16 ?e (off_sin6_port L) st) = p"
    using from_be_ne_word [of "be_bytes 2 p" ?e, where 'a = 16] assms(3)
    by (simp add: read_u16_def del: ne_bytes.simps ne_word.simps)
  moreover have "AF_INET6 L \<noteq> AF_INET L" using assms(1) by (auto simp: libc_ok_def)
  ultimately show ?thesis
    using assms by (simp add: from_raw_def family_cast Let_def del: ne_bytes.simps ne_word.simps)
qed

text \<open>What \<open>to_raw\<close> writes, field by field.\<close>

lemma to_raw_V4_fields:
  assumes "libc_ok L" and "to_raw L (V4 ip p) = (st, len)"
  shows "len = sizeof_sockaddr_in L" "length st = sizeof_sockaddr_storage L"
    "get_at (off_family L) 2 st = ne_bytes (target_endian L) 2 (ucast (AF_INET L) :: u16)"
    "get_at (off_sin_port L) 2 st = be_bytes 2 p"
    "get_at (off_sin_addr L) 4 st = be_bytes 4 ip"
  using assms by (auto simp: to_raw_def Let_def libc_ok_def sockaddr_in_fields_def
      ne_bytes_to_be get_put_other simp del: ne_bytes.simps ne_word.simps)

lemma to_raw_V6_fields:
  assumes "libc_ok L" and "to_raw L (V6 ip p fl sc) = (st, len)"
  shows "len = sizeof_sockaddr_in6 L" "length st = sizeof_sockaddr_storage L"
    "get_at (off_family L) 2 st = ne_bytes (target_endian L) 2 (ucast (AF_INET6 L) :: u16)"
    "get_at (off_sin6_port L) 2 st = be_bytes 2 p"
    "get_at (off_sin6_addr L) 16 st = be_bytes 16 ip"
    "get_at (off_sin6_flowinfo L) 4 st = ne_bytes (target_endian L) 4 fl"
    "get_at (off_sin6_scope_id L) 4 st = ne_bytes (target_endian L) 4 sc"
  using assms by (auto simp: to_raw_def Let_def libc_ok_def sockaddr_in6_fields_def
      ne_bytes_to_be get_put_other simp del: ne_bytes.simps ne_word.simps)

text \<open>The bytes of one entry of a packed array.\<close>

definition raw_bytes :: "'x libc_scheme \<Rightarrow> SocketAddr \<Rightarrow> bytes" where
  "raw_bytes L addr = (case to_raw L addr of (storage, len) \<Rightarrow> take len storage)"

lemma pack_concat: "pack L addrs = concat (map (raw_bytes L) addrs)"
  by (induction addrs) (simp_all add: raw_bytes_def split: prod.splits)

lemma get_at_copied:
  "off + n \<le> len \<Longrightarrow> len \<le> length st \<Longrightarrow> length st \<le> length z \<Longrightarrow>
   get_at off n (put_at 0 (take len st) z) = get_at off n st"
  by (simp add: get_at_def put_at_def drop_take min_def)

lemma get_at_entry:
  "off + n \<le> len \<Longrightarrow> len \<le> length st \<Longrightarrow> get_at off n (take len st @ rest) = get_at off n st"
  by (simp add: get_at_append get_at_take)

lemma parse_entry_V4:
  assumes "libc_ok L"
  shows "parse_entry L (raw_bytes L (V4 ip p) @ rest) = Some (Some (V4 ip p), rest)"
proof -
  obtain st len where raw: "to_raw L (V4 ip p) = (st, len)" by fastforce
  note f = to_raw_V4_fields [OF assms raw]
  have sz: "off_family L + 2 \<le> len" "off_sin_port L + 2 \<le> len" "off_sin_addr L + 4 \<le> len" "len \<le> length st"
    using assms f(1,2) by (auto simp: libc_ok_def sockaddr_in_fields_def)
  have "from_raw L (put_at 0 (take len st) (zeroed_storage L)) = Inr (V4 ip p)"
    using assms f sz by (intro from_raw_V4) (simp_all add: get_at_copied)
  then show ?thesis
    using assms f sz raw
    by (simp add: parse_entry_def raw_bytes_def read_u16_def get_at_entry family_cast Let_def)
qed

lemma parse_entry_V6:
  assumes "libc_ok L"
  shows "parse_entry L (raw_bytes L (V6 ip p fl sc) @ rest) = Some (Some (V6 ip p fl sc), rest)"
proof -
  obtain st len where raw: "to_raw L (V6 ip p fl sc) = (st, len)" by fastforce
  note f = to_raw_V6_fields [OF assms raw]
  have sz: "off_family L + 2 \<le> len" "off_sin6_port L + 2 \<le> len" "off_sin6_addr L + 16 \<le> len"
    "off_sin6_flowinfo L + 4 \<le> len" "off_sin6_scope_id L + 4 \<le> len" "len \<le> length st"
    using assms f(1,2) by (auto simp: libc_ok_def sockaddr_in6_fields_def)
  have "from_raw L (put_at 0 (take len st) (zeroed_storage L)) = Inr (V6 ip p fl sc)"
    using assms f sz by (intro from_raw_V6) (simp_all add: get_at_copied)
  moreover have "AF_INET6 L \<noteq> AF_INET L" using assms by (auto simp: libc_ok_def)
  ultimately show ?thesis
    using assms f sz raw
    by (simp add: parse_entry_def raw_bytes_def read_u16_def get_at_entry family_cast Let_def)
qed

lemma parse_entry_raw_bytes:
  "libc_ok L \<Longrightarrow> parse_entry L (raw_bytes L a @ rest) = Some (Some a, rest)"
  by (cases a) (simp_all add: parse_entry_V4 parse_entry_V6)

text \<open>An address as the kernel writes it to a zeroed storage.\<close>

lemma from_raw_copied: "libc_ok L \<Longrightarrow> from_raw L (put_at 0 (raw_bytes L a) (zeroed_storage L)) = Inr a"
  using parse_entry_raw_bytes [of L a "[]"]
  by (auto simp: parse_entry_def Let_def split: option.splits sum.splits if_splits)

text \<open>
  A C library whose layouts are as documented provides self-delimiting arrays of addresses; the
  layout of Linux is one.
\<close>

locale libc_layout =
  fixes L :: "'x libc_scheme"
  assumes layout_ok: "libc_ok L"

sublocale libc_layout \<subseteq> entries: entry_codec "raw_bytes L" "parse_entry L"
  by unfold_locales (rule parse_entry_raw_bytes [OF layout_ok])

interpretation linux: libc_layout linux_libc
  by unfold_locales (rule linux_libc_ok)

lemma walk_length: "length (walk one n p) \<le> n"
proof (induction one n p rule: walk.induct)
  case (2 one n p)
  then show ?case
    by (auto split: option.splits prod.splits intro: le_SucI)
qed simp

lemma parse_array_packed:
  assumes "libc_ok L" and "sint count \<le> int (length addrs)"
  shows "parse_array L (pack L addrs @ rest) count = take (nat (sint count)) addrs"
proof -
  have "entry_codec (raw_bytes L) (parse_entry L)"
    by unfold_locales (rule parse_entry_raw_bytes [OF assms(1)])
  from entry_codec.walk_prefix [OF this, of "nat (sint count)" addrs rest] assms(2) show ?thesis
    by (simp add: parse_array_def pack_concat)
qed

section \<open>Properties\<close>

text \<open>
  C19: converting an address to a \<open>sockaddr_storage\<close> and back gives the same address, for IPv4 and
  IPv6, on every target with a documented layout and either byte order; the storage has its full
  size and the length returned is within it.
\<close>

theorem from_raw_to_raw:
  assumes "libc_ok L"
  shows "from_raw L (fst (to_raw L addr)) = Inr addr
    \<and> length (fst (to_raw L addr)) = sizeof_sockaddr_storage L
    \<and> snd (to_raw L addr) \<le> sizeof_sockaddr_storage L"
proof (cases addr)
  case (V4 ip p)
  obtain st len where raw: "to_raw L (V4 ip p) = (st, len)" by fastforce
  from V4 raw to_raw_V4_fields [OF assms raw] from_raw_V4 [OF assms] assms show ?thesis
    by (simp add: libc_ok_def)
next
  case (V6 ip p fl sc)
  obtain st len where raw: "to_raw L (V6 ip p fl sc) = (st, len)" by fastforce
  from V6 raw to_raw_V6_fields [OF assms raw] from_raw_V6 [OF assms] assms show ?thesis
    by (simp add: libc_ok_def)
qed

theorem from_raw_to_raw_witness:
  "from_raw linux_libc (fst (to_raw linux_libc (V4 2130706433 38412))) = Inr (V4 2130706433 38412)"
  using from_raw_to_raw [OF linux_libc_ok, of "V4 2130706433 38412"] by simp

text \<open>
  C18: an array of addresses of both families, packed for the kernel, is read back address by address:
  for every count the kernel may give that does not exceed the number of entries, \<open>parse_array\<close>
  returns that many of the packed addresses in order, whatever follows them in memory, and none for a
  negative count.
\<close>

theorem parse_array_pack:
  assumes "libc_ok L" and "sint count \<le> int (length addrs)"
  shows "parse_array L (pack L addrs @ rest) count = take (nat (sint count)) addrs"
  using assms by (rule parse_array_packed)

theorem parse_array_pack_witness:
  "parse_array linux_libc (pack linux_libc [V4 2130706433 38412, V6 1 38412 0 3] @ [7]) 2
     = [V4 2130706433 38412, V6 1 38412 0 3]"
  using parse_array_pack [OF linux_libc_ok, of 2 "[V4 2130706433 38412, V6 1 38412 0 3]" "[7]"] by simp

text \<open>
  What the kernel sees of an address: the family in native order, and the port and the octets of
  the address in network order whatever the byte order of the target.
\<close>

lemma to_raw_network_order:
  assumes "libc_ok L"
  shows "get_at (off_sin_port L) 2 (fst (to_raw L (V4 ip p))) = be_bytes 2 p
    \<and> get_at (off_sin_addr L) 4 (fst (to_raw L (V4 ip p))) = be_bytes 4 ip
    \<and> get_at (off_family L) 2 (fst (to_raw L (V4 ip p))) = ne_bytes (target_endian L) 2 (ucast (AF_INET L) :: u16)
    \<and> get_at (off_sin6_port L) 2 (fst (to_raw L (V6 ip6 p fl sc))) = be_bytes 2 p
    \<and> get_at (off_sin6_addr L) 16 (fst (to_raw L (V6 ip6 p fl sc))) = be_bytes 16 ip6
    \<and> get_at (off_family L) 2 (fst (to_raw L (V6 ip6 p fl sc))) = ne_bytes (target_endian L) 2 (ucast (AF_INET6 L) :: u16)"
proof -
  obtain st len where r4: "to_raw L (V4 ip p) = (st, len)" by fastforce
  obtain st6 len6 where r6: "to_raw L (V6 ip6 p fl sc) = (st6, len6)" by fastforce
  from to_raw_V4_fields [OF assms r4] to_raw_V6_fields [OF assms r6] r4 r6 show ?thesis by simp
qed

end
