(* ===== verification/Notifications.thy ===== *)
theory Notifications
  imports Sys Fmt
begin

text \<open>
  \<open>src/notification.rs\<close>: the notifications the kernel queues beside the data, their decoding from
  the bytes of a receive and their \<open>Display\<close>.
\<close>

section \<open>Notifications\<close>

datatype AssocChangeState =
    CommUp | CommLost | Restart | ShutdownComp | CantStrAssoc | UnknownState u16

record AssocChangeEvent =
  state :: AssocChangeState
  error :: u16
  outbound_streams :: u16
  inbound_streams :: u16
  ace_assoc_id :: i32

datatype Notification =
    AssocChange AssocChangeEvent
  | Shutdown i32
  | SendFailed i32
  | Unknown u16

text \<open>\<open>impl From<u16> for AssocChangeState\<close>.\<close>

definition state_from_u16 :: "u16 \<Rightarrow> AssocChangeState" where
  "state_from_u16 value =
     (if value = SCTP_COMM_UP then CommUp
      else if value = SCTP_COMM_LOST then CommLost
      else if value = SCTP_RESTART then Restart
      else if value = SCTP_SHUTDOWN_COMP then ShutdownComp
      else if value = SCTP_CANT_STR_ASSOC then CantStrAssoc
      else UnknownState value)"

definition display_AssocChangeState :: "AssocChangeState \<Rightarrow> string" where
  "display_AssocChangeState s = (case s of
     CommUp \<Rightarrow> ''COMM_UP''
   | CommLost \<Rightarrow> ''COMM_LOST''
   | Restart \<Rightarrow> ''RESTART''
   | ShutdownComp \<Rightarrow> ''SHUTDOWN_COMP''
   | CantStrAssoc \<Rightarrow> ''CANT_STR_ASSOC''
   | UnknownState v \<Rightarrow> ''UNKNOWN('' @ fmt_u v @ '')'')"

definition display_AssocChangeEvent :: "AssocChangeEvent \<Rightarrow> string" where
  "display_AssocChangeEvent ev = ''AssocChange [state='' @ display_AssocChangeState (state ev)
     @ '', error='' @ fmt_u (error ev) @ '', out_streams='' @ fmt_u (outbound_streams ev)
     @ '', in_streams='' @ fmt_u (inbound_streams ev) @ '', assoc_id='' @ fmt_i (ace_assoc_id ev) @ '']''"

definition display_Notification :: "Notification \<Rightarrow> string" where
  "display_Notification n = (case n of
     AssocChange ev \<Rightarrow> ''Notification::'' @ display_AssocChangeEvent ev
   | Shutdown i \<Rightarrow> ''Notification::Shutdown [assoc_id='' @ fmt_i i @ '']''
   | SendFailed i \<Rightarrow> ''Notification::SendFailed [assoc_id='' @ fmt_i i @ '']''
   | Unknown t \<Rightarrow> ''Notification::Unknown [type=0x'' @ fmt_04x t @ '']'')"

section \<open>Decoding\<close>

text \<open>
  The reads of the decoder, \<open>None\<close> where one leaves the buffer: an index out of range panics, and a
  structure laid over a buffer that is too short is read past its end.
\<close>

definition index_checked :: "bytes \<Rightarrow> nat \<Rightarrow> u8 option" where
  "index_checked buf i = (if i < length buf then Some (buf ! i) else None)"

definition from_ne_bytes_at :: "endian \<Rightarrow> nat list \<Rightarrow> bytes \<Rightarrow> 'a::len word option" where
  "from_ne_bytes_at e is buf = map_option (ne_word e) (those (map (index_checked buf) is))"

definition overlay :: "nat \<Rightarrow> (bytes \<Rightarrow> 'a) \<Rightarrow> bytes \<Rightarrow> 'a option" where
  "overlay n read buf = (if n \<le> length buf then Some (read buf) else None)"

definition parse_notification_checked :: "endian \<Rightarrow> bytes \<Rightarrow> Notification option" where
  "parse_notification_checked e buf =
     (if length buf < sizeof_notification_header then Some (Unknown 0)
      else case from_ne_bytes_at e [0, 1] buf of
        None \<Rightarrow> None
      | Some ty \<Rightarrow>
          if ty = SCTP_ASSOC_CHANGE then
            (if length buf \<ge> sizeof_assoc_change then
               map_option (\<lambda>sac. AssocChange \<lparr>state = state_from_u16 (sac_state sac), error = sac_error sac,
                   outbound_streams = sac_outbound_streams sac, inbound_streams = sac_inbound_streams sac,
                   ace_assoc_id = sac_assoc_id sac\<rparr>)
                 (overlay sizeof_assoc_change (read_assoc_change e) buf)
             else Some (Unknown ty))
          else if ty = SCTP_SHUTDOWN_EVENT then
            (if length buf \<ge> sizeof_shutdown_event then
               map_option (\<lambda>sse. Shutdown (sse_assoc_id sse))
                 (overlay sizeof_shutdown_event (read_shutdown_event e) buf)
             else Some (Unknown ty))
          else if ty = SCTP_SEND_FAILED then
            map_option SendFailed
              (if length buf \<ge> 12 then from_ne_bytes_at e [8, 9, 10, 11] buf else Some 0)
          else Some (Unknown ty))"

text \<open>What it returns; that it always does, \<open>parse_notification_some\<close> below shows.\<close>

definition parse_notification :: "endian \<Rightarrow> bytes \<Rightarrow> Notification" where
  "parse_notification e buf = the (parse_notification_checked e buf)"

section \<open>The bytes the kernel writes\<close>

text \<open>
  The notification structures of RFC 6458, section 6.1, as bytes. The first two are those of
  \<open>src/sys.rs\<close>; \<open>struct sctp_send_failed\<close> has no counterpart there: after the common header come
  an error code, the \<open>sctp_sndrcvinfo\<close> of the message, the association and the undelivered data.
\<close>

definition assoc_change_bytes :: "endian \<Rightarrow> SctpAssocChange \<Rightarrow> bytes" where
  "assoc_change_bytes e c = ne_bytes e 2 (sac_type c) @ ne_bytes e 2 (sac_flags c)
     @ ne_bytes e 4 (sac_length c) @ ne_bytes e 2 (sac_state c) @ ne_bytes e 2 (sac_error c)
     @ ne_bytes e 2 (sac_outbound_streams c) @ ne_bytes e 2 (sac_inbound_streams c)
     @ ne_bytes e 4 (sac_assoc_id c)"

definition shutdown_event_bytes :: "endian \<Rightarrow> SctpShutdownEvent \<Rightarrow> bytes" where
  "shutdown_event_bytes e c = ne_bytes e 2 (sse_type c) @ ne_bytes e 2 (sse_flags c)
     @ ne_bytes e 4 (sse_length c) @ ne_bytes e 4 (sse_assoc_id c)"

definition send_failed_bytes :: "endian \<Rightarrow> u16 \<Rightarrow> u32 \<Rightarrow> u32 \<Rightarrow> bytes \<Rightarrow> i32 \<Rightarrow> bytes \<Rightarrow> bytes" where
  "send_failed_bytes e flags len err_code info aid data =
     ne_bytes e 2 SCTP_SEND_FAILED @ ne_bytes e 2 flags @ ne_bytes e 4 len
     @ ne_bytes e 4 err_code @ info @ ne_bytes e 4 aid @ data"

lemma length_assoc_change_bytes [simp]: "length (assoc_change_bytes e c) = sizeof_assoc_change"
  by (simp add: assoc_change_bytes_def)

lemma length_shutdown_event_bytes [simp]: "length (shutdown_event_bytes e c) = sizeof_shutdown_event"
  by (simp add: shutdown_event_bytes_def)

lemma nth_pair_take: "2 \<le> length buf \<Longrightarrow> [buf ! 0, buf ! 1] = take 2 buf"
  by (rule nth_equalityI) (auto simp: less_Suc_eq numeral_2_eq_2)

lemma nth_quad_get_at:
  assumes "off + 4 \<le> length buf"
  shows "[buf ! off, buf ! (off + 1), buf ! (off + 2), buf ! (off + 3)] = get_at off 4 buf"
proof (rule nth_equalityI)
  fix i assume "i < length [buf ! off, buf ! (off + 1), buf ! (off + 2), buf ! (off + 3)]"
  then have "i = 0 \<or> i = 1 \<or> i = 2 \<or> i = 3" by auto
  with assms show "[buf ! off, buf ! (off + 1), buf ! (off + 2), buf ! (off + 3)] ! i = get_at off 4 buf ! i"
    by (auto simp: get_at_def)
qed (use assms in simp)

text \<open>The guards make every read succeed.\<close>

lemma parse_notification_eq:
  "parse_notification_checked e buf = Some
     (if length buf < sizeof_notification_header then Unknown 0
      else let ty = ne_word e [buf ! 0, buf ! 1] in
        if ty = SCTP_ASSOC_CHANGE then
          (if length buf \<ge> sizeof_assoc_change then
             let sac = read_assoc_change e buf in
             AssocChange \<lparr>state = state_from_u16 (sac_state sac), error = sac_error sac,
               outbound_streams = sac_outbound_streams sac,
               inbound_streams = sac_inbound_streams sac, ace_assoc_id = sac_assoc_id sac\<rparr>
           else Unknown ty)
        else if ty = SCTP_SHUTDOWN_EVENT then
          (if length buf \<ge> sizeof_shutdown_event then
             Shutdown (sse_assoc_id (read_shutdown_event e buf))
           else Unknown ty)
        else if ty = SCTP_SEND_FAILED then
          SendFailed (if length buf \<ge> 12 then ne_word e [buf ! 8, buf ! 9, buf ! 10, buf ! 11] else 0)
        else Unknown ty)"
proof (cases "length buf < sizeof_notification_header")
  case False
  then have "from_ne_bytes_at e [0, 1] buf = Some (ne_word e [buf ! 0, buf ! 1] :: u16)"
    by (auto simp: from_ne_bytes_at_def index_checked_def simp del: ne_word.simps)
  moreover have "12 \<le> length buf \<Longrightarrow> from_ne_bytes_at e [8, 9, 10, 11] buf = Some (ne_word e [buf ! 8, buf ! 9, buf ! 10, buf ! 11] :: i32)"
    by (simp add: from_ne_bytes_at_def index_checked_def del: ne_word.simps)
  ultimately show ?thesis
    using False by (simp add: parse_notification_checked_def overlay_def Let_def)
qed (simp add: parse_notification_checked_def)

lemma parse_notification_some: "parse_notification_checked e buf = Some (parse_notification e buf)"
  by (simp add: parse_notification_def parse_notification_eq)

lemmas parse_notification_cases = parse_notification_eq [unfolded parse_notification_some option.inject]

lemma get_at_bytes:
  "off = length xs \<Longrightarrow> n = length ys \<Longrightarrow> get_at off n (xs @ ys @ zs) = ys"
  by (simp add: get_at_def)

lemma header_type:
  "ne_word e [(ne_bytes e 2 (ty :: u16) @ rest) ! 0, (ne_bytes e 2 ty @ rest) ! 1] = ty"
  by (subst nth_pair_take) simp_all

lemma read_assoc_change_bytes: "read_assoc_change e (assoc_change_bytes e c @ rest) = c"
proof -
  have "read_u16 e 0 (assoc_change_bytes e c @ rest) = sac_type c"
    "read_u16 e 2 (assoc_change_bytes e c @ rest) = sac_flags c"
    "read_u32 e 4 (assoc_change_bytes e c @ rest) = sac_length c"
    "read_u16 e 8 (assoc_change_bytes e c @ rest) = sac_state c"
    "read_u16 e 10 (assoc_change_bytes e c @ rest) = sac_error c"
    "read_u16 e 12 (assoc_change_bytes e c @ rest) = sac_outbound_streams c"
    "read_u16 e 14 (assoc_change_bytes e c @ rest) = sac_inbound_streams c"
    "read_u32 e 16 (assoc_change_bytes e c @ rest) = sac_assoc_id c"
    by (simp_all add: assoc_change_bytes_def read_u16_def read_u32_def get_at_def)
  then show ?thesis by (simp add: read_assoc_change_def sctp_layout Let_def)
qed

lemma read_shutdown_event_bytes: "read_shutdown_event e (shutdown_event_bytes e c @ rest) = c"
proof -
  have "read_u16 e 0 (shutdown_event_bytes e c @ rest) = sse_type c"
    "read_u16 e 2 (shutdown_event_bytes e c @ rest) = sse_flags c"
    "read_u32 e 4 (shutdown_event_bytes e c @ rest) = sse_length c"
    "read_u32 e 8 (shutdown_event_bytes e c @ rest) = sse_assoc_id c"
    by (simp_all add: shutdown_event_bytes_def read_u16_def read_u32_def get_at_def)
  then show ?thesis by (simp add: read_shutdown_event_def sctp_layout Let_def)
qed

lemma SCTP_types_distinct [simp]:
  "SCTP_ASSOC_CHANGE \<noteq> SCTP_SHUTDOWN_EVENT" "SCTP_ASSOC_CHANGE \<noteq> SCTP_SEND_FAILED"
  "SCTP_SHUTDOWN_EVENT \<noteq> SCTP_SEND_FAILED" "SCTP_SHUTDOWN_EVENT \<noteq> SCTP_ASSOC_CHANGE"
  "SCTP_SEND_FAILED \<noteq> SCTP_ASSOC_CHANGE" "SCTP_SEND_FAILED \<noteq> SCTP_SHUTDOWN_EVENT"
  by (simp_all add: SCTP_ASSOC_CHANGE_def SCTP_SHUTDOWN_EVENT_def SCTP_SEND_FAILED_def
      SCTP_SN_TYPE_BASE_def push_bit_eq_mult)

lemma notification_codes:
  "SCTP_ASSOC_CHANGE = 0x8001" "SCTP_SEND_FAILED = 0x8004" "SCTP_SHUTDOWN_EVENT = 0x8005"
  "SCTP_COMM_UP = 0" "SCTP_COMM_LOST = 1" "SCTP_RESTART = 2" "SCTP_SHUTDOWN_COMP = 3" "SCTP_CANT_STR_ASSOC = 4"
  by (simp_all add: sys_consts push_bit_eq_mult)

lemma parse_assoc_change_bytes:
  assumes "sac_type c = SCTP_ASSOC_CHANGE"
  shows "parse_notification e (assoc_change_bytes e c @ info) =
    AssocChange \<lparr>state = state_from_u16 (sac_state c), error = sac_error c,
      outbound_streams = sac_outbound_streams c, inbound_streams = sac_inbound_streams c,
      ace_assoc_id = sac_assoc_id c\<rparr>"
proof -
  have "ne_word e [(assoc_change_bytes e c @ info) ! 0, (assoc_change_bytes e c @ info) ! 1] = sac_type c"
    by (simp only: assoc_change_bytes_def append_assoc header_type)
  then show ?thesis
    using assms by (simp add: parse_notification_cases read_assoc_change_bytes Let_def
        del: ne_bytes.simps ne_word.simps)
qed

text \<open>The decoding by what the buffer holds at each place.\<close>

lemma parse_notification_reads:
  "8 \<le> length buf \<Longrightarrow> parse_notification e buf = (let ty = ne_word e (take 2 buf) in
     if ty = SCTP_ASSOC_CHANGE \<and> 20 \<le> length buf then
       let sac = read_assoc_change e buf in
       AssocChange \<lparr>state = state_from_u16 (sac_state sac), error = sac_error sac,
         outbound_streams = sac_outbound_streams sac, inbound_streams = sac_inbound_streams sac,
         ace_assoc_id = sac_assoc_id sac\<rparr>
     else if ty = SCTP_SHUTDOWN_EVENT \<and> 12 \<le> length buf then Shutdown (sse_assoc_id (read_shutdown_event e buf))
     else if ty = SCTP_SEND_FAILED then SendFailed (if 12 \<le> length buf then ne_word e (get_at 8 4 buf) else 0)
     else Unknown ty)"
  using nth_pair_take [of buf] nth_quad_get_at [of 8 buf]
  by (auto simp: parse_notification_cases Let_def simp del: ne_word.simps)

lemma read_words:
  "sac_assoc_id (read_assoc_change e buf) = ne_word e (get_at 16 4 buf)"
  "sse_assoc_id (read_shutdown_event e buf) = ne_word e (get_at 8 4 buf)"
  by (simp_all add: read_assoc_change_def read_shutdown_event_def sctp_layout Let_def read_u32_def)

lemma read_assoc_change_take: "read_assoc_change e (take 20 buf) = read_assoc_change e buf"
  by (simp add: read_assoc_change_def sctp_layout Let_def read_u16_def read_u32_def get_at_take)

lemma read_shutdown_event_take: "read_shutdown_event e (take 20 buf) = read_shutdown_event e buf"
  by (simp add: read_shutdown_event_def sctp_layout Let_def read_u16_def read_u32_def get_at_take)

lemma parse_notification_take: "parse_notification e (take 20 buf) = parse_notification e buf"
proof (cases "8 \<le> length buf")
  case True
  then have "8 \<le> length (take 20 buf)" by simp
  with True show ?thesis
    by (simp add: parse_notification_reads read_assoc_change_take read_shutdown_event_take get_at_take Let_def)
qed simp

section \<open>Properties\<close>

text \<open>
  C33: an association change that the kernel writes, followed by any additional information, is
  decoded to the event with the state that its code stands for (0 to 4: up, lost, restarted, shut
  down, not set up; any other code is kept as unknown) and with the same error, stream counts and
  association, on a target of either byte order.
\<close>

theorem parse_assoc_change:
  assumes "sac_type c = 0x8001"
  shows "parse_notification e (assoc_change_bytes e c @ info) = AssocChange
    \<lparr>state = (if sac_state c = 0 then CommUp else if sac_state c = 1 then CommLost else if sac_state c = 2 then Restart
       else if sac_state c = 3 then ShutdownComp else if sac_state c = 4 then CantStrAssoc
       else UnknownState (sac_state c)),
     error = sac_error c, outbound_streams = sac_outbound_streams c,
     inbound_streams = sac_inbound_streams c, ace_assoc_id = sac_assoc_id c\<rparr>"
  using assms parse_assoc_change_bytes [of c e info]
  by (simp add: notification_codes state_from_u16_def)

definition sample_change :: SctpAssocChange where
  "sample_change = \<lparr>sac_type = SCTP_ASSOC_CHANGE, sac_flags = 0, sac_length = 20,
     sac_state = SCTP_COMM_LOST, sac_error = 12, sac_outbound_streams = 30,
     sac_inbound_streams = 16, sac_assoc_id = 42\<rparr>"

theorem parse_assoc_change_witness:
  "sac_type sample_change = 0x8001 \<and>
   parse_notification Little (assoc_change_bytes Little sample_change @ [1, 2, 3]) =
     AssocChange \<lparr>state = CommLost, error = 12, outbound_streams = 30, inbound_streams = 16,
       ace_assoc_id = 42\<rparr>"
proof -
  have t: "sac_type sample_change = 0x8001" by (simp add: sample_change_def notification_codes)
  show ?thesis
    using t parse_assoc_change [OF t, of Little "[1, 2, 3]"]
    by (simp add: sample_change_def notification_codes)
qed

text \<open>A shutdown event that the kernel writes is decoded to the shutdown of its association.\<close>

lemma parse_shutdown_event:
  assumes "sse_type c = SCTP_SHUTDOWN_EVENT"
  shows "parse_notification e (shutdown_event_bytes e c @ rest) = Shutdown (sse_assoc_id c)"
proof -
  have "ne_word e [(shutdown_event_bytes e c @ rest) ! 0, (shutdown_event_bytes e c @ rest) ! 1] = sse_type c"
    by (simp only: shutdown_event_bytes_def append_assoc header_type)
  then show ?thesis
    using assms by (simp add: parse_notification_cases read_shutdown_event_bytes Let_def
        del: ne_bytes.simps ne_word.simps)
qed

text \<open>
  C34: decoding never reads past the buffer, for any buffer: none of its reads fails. A buffer shorter
  than the header is \<open>Unknown 0\<close>; from then on the first two bytes decide. An association change and a
  shutdown are reported exactly for a buffer that carries their type and holds the whole structure, with
  the association found at its place; a send failure exactly for a buffer of its type, with the word at
  offset 8 if the buffer holds it and 0 if not; everything else is unknown with the type it carries. And
  nothing after the twentieth byte matters.
\<close>

theorem parse_notification_guards:
  "parse_notification_checked e buf = Some (parse_notification e buf) \<and>
   (length buf < 8 \<longrightarrow> parse_notification e buf = Unknown 0) \<and>
   (8 \<le> length buf \<longrightarrow> (case parse_notification e buf of
       AssocChange ev \<Rightarrow> ne_word e (take 2 buf) = (0x8001 :: u16) \<and> 20 \<le> length buf \<and> ace_assoc_id ev = ne_word e (get_at 16 4 buf)
     | Shutdown i \<Rightarrow> ne_word e (take 2 buf) = (0x8005 :: u16) \<and> 12 \<le> length buf \<and> i = ne_word e (get_at 8 4 buf)
     | SendFailed i \<Rightarrow> ne_word e (take 2 buf) = (0x8004 :: u16) \<and> i = (if 12 \<le> length buf then ne_word e (get_at 8 4 buf) else 0)
     | Unknown ty \<Rightarrow> ne_word e (take 2 buf) = ty \<and> ty \<noteq> 0x8004 \<and>
         (ty = 0x8001 \<longrightarrow> length buf < 20) \<and> (ty = 0x8005 \<longrightarrow> length buf < 12))) \<and>
   parse_notification e (take 20 buf) = parse_notification e buf"
proof (intro conjI impI parse_notification_some)
  assume "8 \<le> length buf"
  then show "case parse_notification e buf of
       AssocChange ev \<Rightarrow> ne_word e (take 2 buf) = (0x8001 :: u16) \<and> 20 \<le> length buf \<and> ace_assoc_id ev = ne_word e (get_at 16 4 buf)
     | Shutdown i \<Rightarrow> ne_word e (take 2 buf) = (0x8005 :: u16) \<and> 12 \<le> length buf \<and> i = ne_word e (get_at 8 4 buf)
     | SendFailed i \<Rightarrow> ne_word e (take 2 buf) = (0x8004 :: u16) \<and> i = (if 12 \<le> length buf then ne_word e (get_at 8 4 buf) else 0)
     | Unknown ty \<Rightarrow> ne_word e (take 2 buf) = ty \<and> ty \<noteq> 0x8004 \<and>
         (ty = 0x8001 \<longrightarrow> length buf < 20) \<and> (ty = 0x8005 \<longrightarrow> length buf < 12)"
    using parse_notification_reads [of buf e] by (auto simp: Let_def read_words notification_codes)
next
  show "parse_notification e (take 20 buf) = parse_notification e buf"
    by (rule parse_notification_take)
qed (simp add: parse_notification_cases)

theorem parse_notification_guards_witness:
  "parse_notification_checked Little [1, 128, 0, 0] = Some (Unknown 0) \<and>
   parse_notification_checked Little [4, 128, 0, 0, 0, 0, 0, 0, 9] = Some (SendFailed 0)"
proof -
  let ?b = "[4, 128, 0, 0, 0, 0, 0, 0, 9] :: bytes"
  have "ne_word Little (take 2 ?b) = (0x8004 :: u16)" by simp
  then have "parse_notification Little ?b = SendFailed 0"
    using parse_notification_guards [of Little ?b]
    by (cases "parse_notification Little ?b") (simp_all del: ne_word.simps)
  with parse_notification_guards [of Little "[1, 128, 0, 0]"] parse_notification_guards [of Little ?b]
  show ?thesis by simp
qed

text \<open>
  C38: for a send failure as RFC 6458 lays it out, what the crate reports as the association is the
  error code of the failure: the association follows the \<open>sctp_sndrcvinfo\<close>, 36 bytes later. The
  association of the failed message never reaches the caller.
\<close>

theorem send_failed_reports_error_code:
  "parse_notification e (send_failed_bytes e flags len err_code info aid data) = SendFailed err_code"
proof -
  let ?b = "send_failed_bytes e flags len err_code info aid data"
  have ty: "ne_word e [?b ! 0, ?b ! 1] = SCTP_SEND_FAILED"
    by (simp only: send_failed_bytes_def append_assoc header_type)
  have len: "12 \<le> length ?b" by (simp add: send_failed_bytes_def)
  have "get_at 8 4 ?b = ne_bytes e 4 err_code" by (simp add: send_failed_bytes_def get_at_def)
  then have "ne_word e [?b ! 8, ?b ! 9, ?b ! 10, ?b ! 11] = err_code"
    using nth_quad_get_at [of 8 ?b] len by simp
  with ty len show ?thesis
    by (simp add: parse_notification_cases Let_def del: ne_word.simps)
qed

end
