(* ===== verification/Recv.thy ===== *)
theory Recv
  imports Addr Notifications Types Sample_Kernel
begin

text \<open>
  \<open>src/recv.rs\<close>: the reassembly of messages that \<open>sctp_recvmsg\<close> returns in parts. \<open>push_chunk\<close>
  classifies and accumulates one received chunk; \<open>recv_step\<close> performs one receive and folds its
  result into the accumulator. The contract of the accumulation is the locale \<open>record_stream\<close>,
  which the association and the server share.
\<close>

unbundle bit_operations_syntax

section \<open>State and outcomes\<close>

definition RECV_WINDOW :: nat where
  "RECV_WINDOW = 64 * 1024"

record Reassembly =
  buf :: bytes
  scratch :: bytes

definition default_Reassembly :: Reassembly where
  "default_Reassembly = \<lparr>buf = [], scratch = []\<rparr>"

datatype Step =
    WouldBlock
  | More
  | StepNotification Notification
  | Complete bytes RecvInfo "SocketAddr option"
  | StepErr SctpError

section \<open>Operations\<close>

text \<open>The accumulator is an in-out argument: the result carries its new value.\<close>

definition push_chunk :: "endian \<Rightarrow> bytes \<Rightarrow> bytes \<Rightarrow> i32 \<Rightarrow> SctpSndRcvInfo \<Rightarrow> SocketAddr option \<Rightarrow>
    Step \<times> bytes" where
  "push_chunk e b chunk msg_flags sinfo addr =
     (if msg_flags AND MSG_NOTIFICATION \<noteq> 0 then
        (StepNotification (parse_notification e chunk), b)
      else let b' = b @ chunk in
        if msg_flags AND MSG_EOR \<noteq> 0 then
          let info = \<lparr>stream = sinfo_stream sinfo, ppid = from_be e 4 (sinfo_ppid sinfo),
                      assoc_id = sinfo_assoc_id sinfo\<rparr>
          in (Complete b' info addr, [])
        else (More, b'))"

text \<open>
  One receive. The result is \<open>None\<close> where the slice \<open>&scratch[..n]\<close> panics, which a kernel that
  keeps to the length it was given never causes.
\<close>

definition grow_scratch :: "Reassembly \<Rightarrow> Reassembly" where
  "grow_scratch r = (if length (scratch r) < RECV_WINDOW
     then r\<lparr>scratch := scratch r @ replicate (RECV_WINDOW - length (scratch r)) 0\<rparr> else r)"

definition recv_step :: "('w, 'x) kernel_scheme \<Rightarrow> i32 \<Rightarrow> bool \<Rightarrow> Reassembly \<Rightarrow> 'w sys \<Rightarrow>
    Step option \<times> Reassembly \<times> 'w sys" where
  "recv_step K fd want_addr r s =
     (let r1 = grow_scratch r in
      case syscall (\<lambda>_. Call_recvmsg fd RECV_WINDOW want_addr) (k_recvmsg K fd RECV_WINDOW want_addr) s
      of (out, s') \<Rightarrow>
        let r2 = r1\<lparr>scratch := put_at 0 (ro_data out) (scratch r1)\<rparr> in
        if neg (ro_ret out) then
          (let er = last_os_error K s' in
           if is_would_block K er then (Some WouldBlock, r2, s') else (Some (StepErr (Io er)), r2, s'))
        else if ro_ret out = 0 then (Some (StepErr PeerShutdown), r2, s')
        else
          let n = nat (sint (ro_ret out));
              addr = (if want_addr then
                        (case from_raw K (put_at 0 (ro_from out) (zeroed_storage K)) of
                           Inr a \<Rightarrow> Some a | Inl _ \<Rightarrow> None)
                      else None)
          in if length (scratch r2) < n then (None, r2, s')
             else case push_chunk (target_endian K) (buf r2) (take n (scratch r2)) (ro_flags out)
                         (ro_sinfo out) addr of
               (st, b') \<Rightarrow> (Some st, r2\<lparr>buf := b'\<rparr>, s'))"

section \<open>The contract of an accumulator of records\<close>

text \<open>Feeding a list of inputs to a stateful operation, collecting its outputs.\<close>

fun feed :: "('b \<Rightarrow> 'c \<Rightarrow> 'o \<times> 'b) \<Rightarrow> 'b \<Rightarrow> 'c list \<Rightarrow> 'o list \<times> 'b" where
  "feed push b [] = ([], b)"
| "feed push b (c # cs) = (case push b c of (out, b') \<Rightarrow>
     case feed push b' cs of (outs, b'') \<Rightarrow> (out # outs, b''))"

lemma fst_feed_Cons [simp]:
  "fst (feed push b (c # cs)) = fst (push b c) # fst (feed push (snd (push b c)) cs)"
  by (simp split: prod.splits)

lemma snd_feed_Cons [simp]: "snd (feed push b (c # cs)) = snd (feed push (snd (push b c)) cs)"
  by (simp split: prod.splits)

lemma feed_one: "feed push b [c] = ([fst (push b c)], snd (push b c))"
  by (simp split: prod.splits)

lemma feed_append:
  "feed push b (xs @ ys) = (case feed push b xs of (os, b') \<Rightarrow>
     case feed push b' ys of (ps, b'') \<Rightarrow> (os @ ps, b''))"
  by (induction xs arbitrary: b) (auto split: prod.splits)

text \<open>A record: parts of which the last one, and only that, carries the end mark.\<close>

definition is_record :: "('c \<Rightarrow> bool) \<Rightarrow> 'c list \<Rightarrow> bool" where
  "is_record is_last g \<longleftrightarrow> g \<noteq> [] \<and> is_last (last g) \<and> (\<forall>c \<in> set (butlast g). \<not> is_last c)"

locale record_stream =
  fixes push :: "bytes \<Rightarrow> 'c \<Rightarrow> 'o \<times> bytes"
    and is_data :: "'c \<Rightarrow> bool"
    and is_last :: "'c \<Rightarrow> bool"
    and payload :: "'c \<Rightarrow> bytes"
    and completes :: "'o \<Rightarrow> 'm option"
    and message :: "bytes \<Rightarrow> 'c \<Rightarrow> 'm"
    and body :: "'m \<Rightarrow> bytes"
  assumes push_other: "\<not> is_data c \<Longrightarrow> snd (push b c) = b \<and> completes (fst (push b c)) = None"
    and push_part: "is_data c \<Longrightarrow> \<not> is_last c \<Longrightarrow>
      snd (push b c) = b @ payload c \<and> completes (fst (push b c)) = None"
    and push_end: "is_data c \<Longrightarrow> is_last c \<Longrightarrow>
      snd (push b c) = [] \<and> completes (fst (push b c)) = Some (message (b @ payload c) c)"
    and body_message: "body (message b c) = b"
begin

abbreviation delivered :: "'o list \<Rightarrow> 'm list" where
  "delivered outs \<equiv> List.map_filter completes outs"

lemma feed_conserves:
  "feed push b cs = (outs, b') \<Longrightarrow>
   concat (map body (delivered outs)) @ b' = b @ concat (map payload (filter is_data cs))"
proof (induction cs arbitrary: b outs)
  case Nil
  then show ?case by (simp add: map_filter_def)
next
  case (Cons c cs)
  obtain out b1 where p: "push b c = (out, b1)" by fastforce
  obtain outs1 where f: "feed push b1 cs = (outs1, b')" and o: "outs = out # outs1"
    using Cons.prems p by (auto split: prod.splits)
  from Cons.IH [OF f] o p push_other [of c b] push_part [of c b] push_end [of c b] show ?case
    by (cases "is_data c"; cases "is_last c") (auto simp: map_filter_def body_message)
qed

text \<open>Inputs that carry no data change nothing.\<close>

lemma feed_filter:
  "delivered (fst (feed push b cs)) = delivered (fst (feed push b (filter is_data cs)))
   \<and> snd (feed push b cs) = snd (feed push b (filter is_data cs))"
proof (induction cs arbitrary: b)
  case Nil
  then show ?case by simp
next
  case (Cons c cs)
  from Cons.IH [of "snd (push b c)"] push_other [of c b] show ?case
    by (cases "is_data c") (auto simp: map_filter_def split: prod.splits)
qed

lemma feed_parts:
  "\<forall>c \<in> set g. is_data c \<and> \<not> is_last c \<Longrightarrow>
   delivered (fst (feed push b g)) = [] \<and> snd (feed push b g) = b @ concat (map payload g)"
proof (induction g arbitrary: b)
  case Nil
  then show ?case by (simp add: map_filter_def)
next
  case (Cons c g)
  then have "delivered (fst (feed push (b @ payload c) g)) = [] \<and>
      snd (feed push (b @ payload c) g) = (b @ payload c) @ concat (map payload g)"
    by (intro Cons.IH) simp
  with Cons.prems push_part [of c b] show ?case
    by (simp add: List.map_filter_simps del: feed.simps)
qed

lemma feed_record:
  assumes "is_record is_last g" and "\<forall>c \<in> set g. is_data c"
  shows "delivered (fst (feed push b g)) = [message (b @ concat (map payload g)) (last g)]
    \<and> snd (feed push b g) = []"
proof -
  let ?h = "butlast g" and ?l = "last g"
  have g: "g = ?h @ [?l]" using assms(1) by (simp add: is_record_def)
  then have l: "is_data ?l" "is_last ?l"
    using assms by (auto simp: is_record_def)
  have parts: "delivered (fst (feed push b ?h)) = [] \<and> snd (feed push b ?h) = b @ concat (map payload ?h)"
    using assms by (intro feed_parts) (auto simp: is_record_def dest: in_set_butlastD)
  have "concat (map payload g) = concat (map payload ?h) @ payload ?l"
    by (subst g) simp
  with parts push_end [OF l, of "b @ concat (map payload ?h)"]
    feed_append [of push b ?h "[?l]"] g
  show ?thesis
    by (auto simp: map_filter_def split: prod.splits)
qed

theorem feed_records:
  assumes "filter is_data cs = concat gs @ rest"
    and "\<forall>g \<in> set gs. is_record is_last g" and "\<forall>c \<in> set rest. \<not> is_last c"
  shows "delivered (fst (feed push [] cs)) = map (\<lambda>g. message (concat (map payload g)) (last g)) gs
    \<and> snd (feed push [] cs) = concat (map payload rest)"
proof -
  have data: "\<forall>c \<in> set (concat gs @ rest). is_data c" 
    using assms(1) by (metis (mono_tags, lifting) mem_Collect_eq set_filter)
  have "delivered (fst (feed push [] (concat gs @ rest))) = map (\<lambda>g. message (concat (map payload g)) (last g)) gs
    \<and> snd (feed push [] (concat gs @ rest)) = concat (map payload rest)"
    using data assms(2)
  proof (induction gs)
    case Nil
    with assms(3) feed_parts [of rest "[]"] show ?case by simp
  next
    case (Cons g gs)
    have "delivered (fst (feed push [] g)) = [message (concat (map payload g)) (last g)] \<and> snd (feed push [] g) = []"
      using feed_record [of g "[]"] Cons.prems by simp
    with Cons feed_append [of push "[]" g "concat gs @ rest"] show ?case
      by (auto simp: map_filter_def split: prod.splits)
  qed
  with feed_filter [of "[]" cs] assms(1) show ?thesis by simp
qed

lemma delivered_count:
  "length (delivered (fst (feed push b cs))) = length (filter (\<lambda>c. is_data c \<and> is_last c) cs)"
proof (induction cs arbitrary: b)
  case Nil
  then show ?case by (simp add: map_filter_def)
next
  case (Cons c cs)
  from Cons.IH [of "snd (push b c)"] push_other [of c b] push_part [of c b] push_end [of c b]
  show ?case
    by (cases "is_data c"; cases "is_last c") (auto simp: map_filter_def split: prod.splits)
qed

end

text \<open>
  The accumulator of the crate keeps the contract. An input is a chunk with its flags, its
  ancillary data and the address of its sender.
\<close>

type_synonym chunk = "bytes \<times> i32 \<times> SctpSndRcvInfo \<times> SocketAddr option"

fun push_input :: "endian \<Rightarrow> bytes \<Rightarrow> chunk \<Rightarrow> Step \<times> bytes" where
  "push_input e b (d, flags, sinfo, addr) = push_chunk e b d flags sinfo addr"

fun is_data_chunk :: "chunk \<Rightarrow> bool" where
  "is_data_chunk (d, flags, sinfo, addr) \<longleftrightarrow> flags AND MSG_NOTIFICATION = 0"

fun is_last_chunk :: "chunk \<Rightarrow> bool" where
  "is_last_chunk (d, flags, sinfo, addr) \<longleftrightarrow> flags AND MSG_EOR \<noteq> 0"

fun step_message :: "Step \<Rightarrow> (bytes \<times> RecvInfo \<times> SocketAddr option) option" where
  "step_message (Complete d info addr) = Some (d, info, addr)"
| "step_message _ = None"

definition info_of :: "endian \<Rightarrow> SctpSndRcvInfo \<Rightarrow> RecvInfo" where
  "info_of e sinfo = \<lparr>stream = sinfo_stream sinfo, ppid = from_be e 4 (sinfo_ppid sinfo),
     assoc_id = sinfo_assoc_id sinfo\<rparr>"

fun message_of :: "endian \<Rightarrow> bytes \<Rightarrow> chunk \<Rightarrow> bytes \<times> RecvInfo \<times> SocketAddr option" where
  "message_of e b (d, flags, sinfo, addr) = (b, info_of e sinfo, addr)"

interpretation reassembly: record_stream "push_input e" is_data_chunk is_last_chunk fst step_message
  "message_of e" fst for e
proof
  fix c :: chunk and b :: bytes
  obtain d flags sinfo addr where c: "c = (d, flags, sinfo, addr)" by (cases c)
  show "\<not> is_data_chunk c \<Longrightarrow>
      snd (push_input e b c) = b \<and> step_message (fst (push_input e b c)) = None"
    "is_data_chunk c \<Longrightarrow> \<not> is_last_chunk c \<Longrightarrow>
      snd (push_input e b c) = b @ fst c \<and> step_message (fst (push_input e b c)) = None"
    "is_data_chunk c \<Longrightarrow> is_last_chunk c \<Longrightarrow> snd (push_input e b c) = [] \<and>
      step_message (fst (push_input e b c)) = Some (message_of e (b @ fst c) c)"
    by (simp_all add: c push_chunk_def info_of_def Let_def)
  show "fst (message_of e b c) = b" by (simp add: c)
qed

section \<open>One receive\<close>

text \<open>The read buffer is empty before the first receive and has the size of the window after it.\<close>

definition reassembly_inv :: "Reassembly \<Rightarrow> bool" where
  "reassembly_inv r \<longleftrightarrow> scratch r = [] \<or> length (scratch r) = RECV_WINDOW"

lemma reassembly_inv_default: "reassembly_inv default_Reassembly"
  by (simp add: reassembly_inv_def default_Reassembly_def)

lemma grow_scratch_length: "reassembly_inv r \<Longrightarrow> length (scratch (grow_scratch r)) = RECV_WINDOW"
  by (auto simp: reassembly_inv_def grow_scratch_def)

lemma grow_scratch_buf [simp]: "buf (grow_scratch r) = buf r"
  by (simp add: grow_scratch_def)

text \<open>What the kernel answers to the receive of a step, and the chunk it is.\<close>

definition recv_answer :: "('w, 'x) kernel_scheme \<Rightarrow> i32 \<Rightarrow> bool \<Rightarrow> 'w sys \<Rightarrow> recv_out" where
  "recv_answer K fd want s = fst (k_recvmsg K fd RECV_WINDOW want (kern s))"

definition after_recv :: "('w, 'x) kernel_scheme \<Rightarrow> i32 \<Rightarrow> bool \<Rightarrow> 'w sys \<Rightarrow> 'w sys" where
  "after_recv K fd want s = \<lparr>kern = snd (k_recvmsg K fd RECV_WINDOW want (kern s)),
     trace = trace s @ [Call_recvmsg fd RECV_WINDOW want]\<rparr>"

definition sender_of :: "('w, 'x) kernel_scheme \<Rightarrow> bool \<Rightarrow> recv_out \<Rightarrow> SocketAddr option" where
  "sender_of K want out = (if want then
     (case from_raw K (put_at 0 (ro_from out) (zeroed_storage K)) of Inr a \<Rightarrow> Some a | Inl _ \<Rightarrow> None)
   else None)"

definition answer_chunk :: "('w, 'x) kernel_scheme \<Rightarrow> bool \<Rightarrow> recv_out \<Rightarrow> chunk" where
  "answer_chunk K want out = (ro_data out, ro_flags out, ro_sinfo out, sender_of K want out)"

lemma recv_step_sys [simp]: "snd (snd (recv_step K fd want r s)) = after_recv K fd want s"
  by (auto simp: recv_step_def after_recv_def syscall_def Let_def split: prod.splits)

lemma recv_step_fails:
  assumes "neg (ro_ret (recv_answer K fd want s))"
  shows "fst (recv_step K fd want r s) = Some (
      if is_would_block K (last_os_error K (after_recv K fd want s)) then WouldBlock
      else StepErr (Io (last_os_error K (after_recv K fd want s))))
    \<and> buf (fst (snd (recv_step K fd want r s))) = buf r"
  using assms by (auto simp: recv_step_def recv_answer_def after_recv_def syscall_def Let_def
      split: prod.splits)

lemma recv_step_eof:
  assumes "ro_ret (recv_answer K fd want s) = 0"
  shows "fst (recv_step K fd want r s) = Some (StepErr PeerShutdown)
    \<and> buf (fst (snd (recv_step K fd want r s))) = buf r"
  using assms by (auto simp: recv_step_def recv_answer_def syscall_def neg_def Let_def
      split: prod.splits)

lemma recv_step_chunk:
  assumes "recvmsg_ok K" and "reassembly_inv r"
    and "\<not> neg (ro_ret (recv_answer K fd want s))" and "ro_ret (recv_answer K fd want s) \<noteq> 0"
  shows "recv_step K fd want r s =
    (Some (fst (push_input (target_endian K) (buf r) (answer_chunk K want (recv_answer K fd want s)))),
     \<lparr>buf = snd (push_input (target_endian K) (buf r) (answer_chunk K want (recv_answer K fd want s))),
      scratch = put_at 0 (ro_data (recv_answer K fd want s)) (scratch (grow_scratch r))\<rparr>,
     after_recv K fd want s)"
proof -
  obtain out w where k: "k_recvmsg K fd RECV_WINDOW want (kern s) = (out, w)" by fastforce
  have len: "length (ro_data out) = nat (sint (ro_ret out))" "length (ro_data out) \<le> RECV_WINDOW"
    using assms(1,3) k unfolding recvmsg_ok_def recv_answer_def by (metis fst_conv)+
  have g: "length (scratch (grow_scratch r)) = RECV_WINDOW"
    using assms(2) by (rule grow_scratch_length)
  have tk: "take (nat (sint (ro_ret out))) (put_at 0 (ro_data out) (scratch (grow_scratch r))) = ro_data out"
    using len(1) by (simp add: put_at_def)
  show ?thesis
    using assms(3,4) k len g tk
    by (simp add: recv_step_def recv_answer_def after_recv_def answer_chunk_def sender_of_def
        syscall_def Let_def split: prod.splits)
qed

lemma recv_step_inv:
  assumes "recvmsg_ok K" and "reassembly_inv r"
  shows "reassembly_inv (fst (snd (recv_step K fd want r s)))"
proof -
  let ?out = "recv_answer K fd want s"
  have "length (ro_data ?out) \<le> RECV_WINDOW"
    using assms(1) by (simp add: recvmsg_ok_def recv_answer_def)
  then have "length (put_at 0 (ro_data ?out) (scratch (grow_scratch r))) = RECV_WINDOW"
    using grow_scratch_length [OF assms(2)] by simp
  then show ?thesis
    by (auto simp: recv_step_def recv_answer_def reassembly_inv_def syscall_def Let_def
        split: prod.splits)
qed

lemma recv_step_outcome:
  assumes "recvmsg_ok K" and "reassembly_inv r" and "recv_step K fd want r s = (st, r', s')"
  defines "out \<equiv> recv_answer K fd want s"
  shows "trace s' = trace s @ [Call_recvmsg fd RECV_WINDOW want]
    \<and> reassembly_inv r'
    \<and> (st, buf r') =
       (if neg (ro_ret out) then
          (Some (if is_would_block K (last_os_error K s') then WouldBlock
                 else StepErr (Io (last_os_error K s'))), buf r)
        else if ro_ret out = 0 then (Some (StepErr PeerShutdown), buf r)
        else (Some (fst (push_input (target_endian K) (buf r) (answer_chunk K want out))),
              snd (push_input (target_endian K) (buf r) (answer_chunk K want out))))"
proof -
  have s': "s' = after_recv K fd want s" using recv_step_sys [of K fd want r s] assms(3) by simp
  have inv: "reassembly_inv r'" using recv_step_inv [OF assms(1,2), of fd want s] assms(3) by simp
  consider "neg (ro_ret out)" | "ro_ret out = 0" "\<not> neg (ro_ret out)" | "ro_ret out \<noteq> 0" "\<not> neg (ro_ret out)"
    by blast
  then have "(st, buf r') =
       (if neg (ro_ret out) then
          (Some (if is_would_block K (last_os_error K s') then WouldBlock
                 else StepErr (Io (last_os_error K s'))), buf r)
        else if ro_ret out = 0 then (Some (StepErr PeerShutdown), buf r)
        else (Some (fst (push_input (target_endian K) (buf r) (answer_chunk K want out))),
              snd (push_input (target_endian K) (buf r) (answer_chunk K want out))))"
  proof cases
    case 1
    with recv_step_fails [of K fd want s r] assms(3) s' show ?thesis by (simp add: out_def)
  next
    case 2
    with recv_step_eof [of K fd want s r] assms(3) show ?thesis by (simp add: out_def)
  next
    case 3
    with recv_step_chunk [OF assms(1,2), of fd want s] assms(3) show ?thesis by (simp add: out_def)
  qed
  with s' inv show ?thesis by (simp add: after_recv_def)
qed

section \<open>Properties\<close>

text \<open>
  C5: whatever the kernel delivers, in whatever parts and with notifications at any point between
  the parts, the messages handed out are exactly the records: one message for each group of data
  chunks that ends with the end-of-record mark, its payload the concatenation of the chunks of the
  group in order, its stream, protocol identifier, association and sender those of the last chunk.
  What is left in the accumulator is the concatenation of the parts of the unfinished record.
\<close>

theorem reassembly_exact:
  assumes "filter is_data_chunk cs = concat gs @ rest"
    and "\<forall>g \<in> set gs. is_record is_last_chunk g" and "\<forall>c \<in> set rest. \<not> is_last_chunk c"
  shows "List.map_filter step_message (fst (feed (push_input e) [] cs)) =
      map (\<lambda>g. message_of e (concat (map fst g)) (last g)) gs
    \<and> snd (feed (push_input e) [] cs) = concat (map fst rest)"
  using assms by (rule reassembly.feed_records)

definition sample_sinfo :: SctpSndRcvInfo where
  "sample_sinfo = default_SctpSndRcvInfo\<lparr>sinfo_stream := 7, sinfo_ppid := to_be Little 4 18, sinfo_assoc_id := 42\<rparr>"

definition sample_chunks :: "chunk list" where
  "sample_chunks = [([170, 171], 0, sample_sinfo, None), ([0, 0, 0, 0], MSG_NOTIFICATION, sample_sinfo, None),
     ([187], MSG_EOR, sample_sinfo, None), ([1, 2], 0, sample_sinfo, None)]"

theorem reassembly_exact_witness:
  "List.map_filter step_message (fst (feed (push_input Little) [] sample_chunks)) =
     [([170, 171, 187], \<lparr>stream = 7, ppid = 18, assoc_id = 42\<rparr>, None)]
   \<and> snd (feed (push_input Little) [] sample_chunks) = [1, 2]"
proof -
  let ?a = "([170, 171], 0, sample_sinfo, None) :: chunk" and ?b = "([187], MSG_EOR, sample_sinfo, None) :: chunk"
    and ?c = "([1, 2], 0, sample_sinfo, None) :: chunk"
  have f: "filter is_data_chunk sample_chunks = concat [[?a, ?b]] @ [?c]"
    by (simp add: sample_chunks_def MSG_NOTIFICATION_def MSG_EOR_def)
  have g: "\<forall>g \<in> set [[?a, ?b]]. is_record is_last_chunk g"
    by (simp add: is_record_def MSG_EOR_def)
  have r: "\<forall>c \<in> set [?c]. \<not> is_last_chunk c" by simp
  show ?thesis
    using reassembly_exact [OF f g r, of Little]
    by (simp add: info_of_def sample_sinfo_def default_SctpSndRcvInfo_def from_be_to_be)
qed

text \<open>
  No byte is lost, duplicated or reordered: for every sequence of chunks and every content of
  the accumulator, the payloads handed out followed by what stays in the accumulator are what was
  in the accumulator followed by the data received, and there is one message per end mark.
\<close>

lemma reassembly_conserves:
  "concat (map fst (List.map_filter step_message (fst (feed (push_input e) b cs)))) @ snd (feed (push_input e) b cs)
     = b @ concat (map fst (filter is_data_chunk cs))
   \<and> length (List.map_filter step_message (fst (feed (push_input e) b cs)))
     = length (filter (\<lambda>c. is_data_chunk c \<and> is_last_chunk c) cs)"
  using reassembly.feed_conserves [of e b cs "fst (feed (push_input e) b cs)" "snd (feed (push_input e) b cs)"]
    reassembly.delivered_count [of e b cs]
  by simp

text \<open>
  C26: one receive, on every branch. With a kernel that keeps to the read window, \<open>recv_step\<close> makes
  exactly one \<open>sctp_recvmsg\<close> of \<open>RECV_WINDOW\<close> bytes and never panics; a failing call is
  \<open>WouldBlock\<close> or its error and an empty read is \<open>PeerShutdown\<close>, both with the accumulator
  untouched; any other read is the chunk the kernel returned, pushed to the accumulator. The read
  buffer keeps its size.
\<close>

theorem recv_step_correct:
  assumes "recvmsg_ok K" and "reassembly_inv r" and "recv_step K fd want r s = (st, r', s')"
  defines "out \<equiv> recv_answer K fd want s"
  shows "trace s' = trace s @ [Call_recvmsg fd RECV_WINDOW want]
    \<and> reassembly_inv r'
    \<and> (st, buf r') =
       (if neg (ro_ret out) then
          (Some (if is_would_block K (last_os_error K s') then WouldBlock
                 else StepErr (Io (last_os_error K s'))), buf r)
        else if ro_ret out = 0 then (Some (StepErr PeerShutdown), buf r)
        else (Some (fst (push_input (target_endian K) (buf r) (answer_chunk K want out))),
              snd (push_input (target_endian K) (buf r) (answer_chunk K want out))))"
  using recv_step_outcome [OF assms(1-3)] by (simp add: out_def)

theorem recv_step_correct_witness:
  "\<exists>r'. recv_step sample_kernel 3 False default_Reassembly
      (sample_sys [([104, 105], MSG_EOR, sample_sinfo)] 0) =
    (Some (Complete [104, 105] \<lparr>stream = 7, ppid = 18, assoc_id = 42\<rparr> None), r',
     sample_sys [] 0\<lparr>trace := [Call_recvmsg 3 RECV_WINDOW False]\<rparr>)
   \<and> buf r' = [] \<and> reassembly_inv r'"
proof -
  let ?s = "sample_sys [([104, 105], MSG_EOR, sample_sinfo)] 0"
  obtain st r' s' where step: "recv_step sample_kernel 3 False default_Reassembly ?s = (st, r', s')"
    by (metis surj_pair)
  have out: "k_recvmsg sample_kernel 3 RECV_WINDOW False (kern ?s) =
      (sample_out 2 [104, 105] MSG_EOR sample_sinfo, kern (sample_sys [] 0))"
    by (simp add: sample_defs RECV_WINDOW_def)
  have info: "from_be Little 4 (sinfo_ppid sample_sinfo) = 18"
    by (simp add: sample_sinfo_def default_SctpSndRcvInfo_def from_be_to_be)
  have s': "s' = sample_sys [] 0\<lparr>trace := [Call_recvmsg 3 RECV_WINDOW False]\<rparr>"
    using recv_step_sys [of sample_kernel 3 False default_Reassembly ?s] step out
    by (simp add: after_recv_def) (simp add: sample_sys_def)
  from recv_step_correct [OF sample_recvmsg_ok reassembly_inv_default step] out info
  have "reassembly_inv r'" "st = Some (Complete [104, 105] \<lparr>stream = 7, ppid = 18, assoc_id = 42\<rparr> None)" "buf r' = []"
    by (auto simp: recv_answer_def sample_out_def neg_def answer_chunk_def sender_of_def push_chunk_def
        default_Reassembly_def MSG_NOTIFICATION_def MSG_EOR_def sample_sinfo_def default_SctpSndRcvInfo_def)
  with step s' show ?thesis by blast
qed

text \<open>
  C36: the accumulator does not look at the association a part belongs to. On a socket that serves
  many associations, a part of a message of one association that is lost before its end mark, as
  the notification of the loss leaves it in place, becomes the head of the next message, whichever
  association sends that: the message is handed out with the bytes of both and the identity of the
  second.
\<close>

theorem parts_of_a_lost_association_stay:
  assumes "flags1 AND MSG_NOTIFICATION = 0" and "flags1 AND MSG_EOR = 0"
    and "flags2 AND MSG_NOTIFICATION \<noteq> 0"
    and "flags3 AND MSG_NOTIFICATION = 0" and "flags3 AND MSG_EOR \<noteq> 0"
  shows "feed (push_input e) [] [(d1, flags1, sinfo1, addr1), (lost, flags2, sinfo2, addr2), (d2, flags3, sinfo3, addr3)]
    = ([More, StepNotification (parse_notification e lost), Complete (d1 @ d2) (info_of e sinfo3) addr3], [])"
  using assms by (simp add: push_chunk_def info_of_def)

theorem parts_of_a_lost_association_stay_witness:
  "feed (push_input Little) [] [([1, 2], 0, sample_sinfo\<lparr>sinfo_assoc_id := 1\<rparr>, None),
      (assoc_change_bytes Little (sample_change\<lparr>sac_assoc_id := 1\<rparr>), MSG_NOTIFICATION, sample_sinfo, None),
      ([3, 4], MSG_EOR, sample_sinfo\<lparr>sinfo_assoc_id := 2\<rparr>, None)]
   = ([More, StepNotification (AssocChange \<lparr>state = CommLost, error = 12, outbound_streams = 30,
        inbound_streams = 16, ace_assoc_id = 1\<rparr>),
       Complete [1, 2, 3, 4] \<lparr>stream = 7, ppid = 18, assoc_id = 2\<rparr> None], [])"
proof -
  let ?c = "sample_change\<lparr>sac_assoc_id := 1\<rparr>"
  have n: "parse_notification Little (assoc_change_bytes Little ?c) =
      AssocChange \<lparr>state = CommLost, error = 12, outbound_streams = 30, inbound_streams = 16, ace_assoc_id = 1\<rparr>"
    using parse_assoc_change_bytes [of ?c Little "[]"]
    by (simp add: sample_change_def state_from_u16_def SCTP_COMM_LOST_def SCTP_COMM_UP_def)
  have f: "(0 :: i32) AND MSG_NOTIFICATION = 0" "(0 :: i32) AND MSG_EOR = 0"
    "MSG_NOTIFICATION AND MSG_NOTIFICATION \<noteq> 0" "MSG_EOR AND MSG_NOTIFICATION = 0" "MSG_EOR AND MSG_EOR \<noteq> 0"
    by (simp_all add: MSG_NOTIFICATION_def MSG_EOR_def)
  show ?thesis
    using parts_of_a_lost_association_stay [OF f, of Little "[1, 2]" _ None _ _ None "[3, 4]" _ None] n
    by (simp add: info_of_def sample_sinfo_def default_SctpSndRcvInfo_def from_be_to_be)
qed

end
