(* ===== verification/Async.thy ===== *)
theory Async
  imports Kernel
begin

text \<open>
  The asynchronous functions of the crate. Each of them is a loop with one await point, at the head
  of the loop, and keeps nothing but its arguments across it. Such a function is modelled by its
  turn: what happens from one poll at the await point to the next, which either returns, panics, or
  goes back to the await point. \<open>run_turns n\<close> polls the future at most \<open>n\<close> times; the outcome
  \<open>Again\<close> is a future that still waits, which the caller can poll again or drop. A poll whose
  readiness is not there is a turn that changes nothing of the caller's objects.
\<close>

datatype 'a turn = Return 'a | Again | Panicked

fun run_turns :: "('s \<Rightarrow> 'a turn \<times> 's) \<Rightarrow> nat \<Rightarrow> 's \<Rightarrow> 'a turn \<times> 's" where
  "run_turns t 0 s = (Again, s)"
| "run_turns t (Suc n) s = (case t s of
     (Again, s') \<Rightarrow> run_turns t n s'
   | (Return x, s') \<Rightarrow> (Return x, s')
   | (Panicked, s') \<Rightarrow> (Panicked, s'))"

text \<open>
  Awaiting readiness: the poll of \<open>AsyncFd::readable\<close>, \<open>writable\<close> or \<open>ready\<close>, an error of which
  the \<open>?\<close> after it converts to \<open>SctpError::Io\<close>; \<open>go\<close> is what follows the await.
\<close>

definition poll_ready :: "('w, 'x) kernel_scheme \<Rightarrow> i32 \<Rightarrow> interest \<Rightarrow> 'w sys \<Rightarrow> readiness \<times> 'w sys" where
  "poll_ready K fd i = syscall (\<lambda>_. Call_ready fd i) (k_ready K fd i)"

definition clear_ready :: "('w, 'x) kernel_scheme \<Rightarrow> i32 \<Rightarrow> interest \<Rightarrow> 'w sys \<Rightarrow> 'w sys" where
  "clear_ready K fd i = syscall_unit (Call_clear_ready fd i) (k_clear_ready K fd i)"

lemma run_turns_add:
  "run_turns t (m + n) s = (case run_turns t m s of
     (Again, s') \<Rightarrow> run_turns t n s'
   | r \<Rightarrow> r)"
  by (induction m arbitrary: s) (auto split: prod.splits turn.splits)

lemma run_turns_cancel: "run_turns t m s = (Again, s') \<Longrightarrow> run_turns t n s' = run_turns t (m + n) s"
  by (simp add: run_turns_add)

lemma run_turns_done: "run_turns t m s = (Return x, s') \<Longrightarrow> m \<le> n \<Longrightarrow> run_turns t n s = (Return x, s')"
  using run_turns_add [of t m "n - m" s] by simp

text \<open>An invariant of the turns is an invariant of the runs.\<close>

lemma run_turns_invariant:
  assumes "\<And>s. P s \<Longrightarrow> P (snd (t s))" and "P s"
  shows "P (snd (run_turns t n s))"
  using assms(2)
proof (induction n arbitrary: s)
  case 0
  then show ?case by simp
next
  case (Suc n)
  from assms(1) [OF Suc.prems] Suc.IH show ?case
    by (auto split: prod.splits turn.splits)
qed

lemma run_turns_no_panic:
  assumes "\<And>s. P s \<Longrightarrow> P (snd (t s)) \<and> fst (t s) \<noteq> Panicked" and "P s"
  shows "fst (run_turns t n s) \<noteq> Panicked"
  using assms(2)
proof (induction n arbitrary: s)
  case 0
  then show ?case by simp
next
  case (Suc n)
  from assms(1) [OF Suc.prems] Suc.IH show ?case
    by (auto split: prod.splits turn.splits)
qed

text \<open>A future that still waits after \<open>n\<close> polls has gone through \<open>n\<close> turns that went back to its await.\<close>

lemma run_turns_again_blocks:
  assumes "\<And>s s'. P s \<Longrightarrow> t s = (Again, s') \<Longrightarrow> P s' \<and> (\<exists>b. log s' = log s @ b \<and> Q b)"
    and "P s" and "run_turns t n s = (Again, s')"
  shows "\<exists>bs. length bs = n \<and> log s' = log s @ concat bs \<and> (\<forall>b \<in> set bs. Q b)"
  using assms(2,3)
proof (induction n arbitrary: s)
  case 0
  then show ?case by simp
next
  case (Suc n)
  obtain u s1 where u: "t s = (u, s1)" by fastforce
  with Suc.prems(2) have a: "t s = (Again, s1)" and r: "run_turns t n s1 = (Again, s')"
    by (cases u; simp)+
  obtain b where b: "P s1" "log s1 = log s @ b" "Q b" using assms(1) [OF Suc.prems(1) a] by blast
  obtain bs where "length bs = n" "log s' = log s1 @ concat bs" "\<forall>b \<in> set bs. Q b"
    using Suc.IH [OF b(1) r] by blast
  with b show ?case by (intro exI [of _ "b # bs"]) simp
qed

section \<open>The contract of a send\<close>

text \<open>
  \<open>SctpAssociation::send_with\<close> and \<open>SctpServer::send_with\<close> promise the same: a message is handed
  to the kernel whole and once, or not at all. \<open>accepted\<close> lists the messages the kernel has taken,
  \<open>handle\<close> is what the send keeps of its socket, and \<open>entry\<close> the message as the kernel takes it, with
  the number of bytes the send returns.
\<close>

locale send_loop =
  fixes turn :: "'s \<Rightarrow> ('e + 'n) turn \<times> 's"
    and handle :: "'s \<Rightarrow> 'h"
    and accepted :: "'s \<Rightarrow> 'm list"
    and entry :: "'h \<Rightarrow> 'n \<Rightarrow> 'm"
  assumes no_panic: "fst (turn s) \<noteq> Panicked"
    and handle_kept: "handle (snd (turn s)) = handle s"
    and again_keeps: "turn s = (Again, s') \<Longrightarrow> accepted s' = accepted s"
    and error_keeps: "turn s = (Return (Inl e), s') \<Longrightarrow> accepted s' = accepted s"
    and sent_once: "turn s = (Return (Inr n), s') \<Longrightarrow> accepted s' = accepted s @ [entry (handle s) n]"
begin

lemma run_accepted:
  "run_turns turn k s = (r, s') \<Longrightarrow>
   accepted s' = accepted s @ (case r of Return (Inr n) \<Rightarrow> [entry (handle s) n] | _ \<Rightarrow> [])
   \<and> handle s' = handle s \<and> r \<noteq> Panicked"
proof (induction k arbitrary: s)
  case 0
  then show ?case by auto
next
  case (Suc k)
  obtain t s1 where t: "turn s = (t, s1)" by fastforce
  with handle_kept [of s] have h: "handle s1 = handle s" by simp
  show ?case
  proof (cases t)
    case (Return x)
    with t h Suc.prems error_keeps [of s] sent_once [of s] show ?thesis
      by (cases x) auto
  next
    case Again
    with t Suc.prems Suc.IH [of s1] again_keeps [of s s1] h show ?thesis
      by (auto split: turn.splits sum.splits)
  next
    case Panicked
    with t no_panic [of s] show ?thesis by simp
  qed
qed

text \<open>A send that is dropped while it waits has sent nothing, and one that fails neither.\<close>

lemma unsent:
  "run_turns turn k s = (r, s') \<Longrightarrow> (\<forall>n. r \<noteq> Return (Inr n)) \<Longrightarrow> accepted s' = accepted s"
  using run_accepted [of k s r s'] by (auto split: turn.splits sum.splits)

end

text \<open>The messages the kernel has taken, among the calls of a trace.\<close>

fun taken :: "call \<Rightarrow> bool" where
  "taken (Call_sendmsg _ _ _ _ _ _ _ ret) \<longleftrightarrow> \<not> neg ret"
| "taken (Call_send _ _ _ _ ret) \<longleftrightarrow> \<not> neg ret"
| "taken _ \<longleftrightarrow> False"

text \<open>\<open>ret as usize\<close> keeps the result.\<close>

lemma ucast_scast_i32 [simp]: "(ucast (scast (r :: i32) :: usize) :: i32) = r"
  by (rule bit_word_eqI) (simp add: bit_unsigned_iff bit_signed_iff)

end
