(* ===== verification/Receiver.thy ===== *)
theory Receiver
  imports Recv Async
begin

text \<open>
  The contract that the receive of an association and that of a server share: each turn feeds the
  chunks the kernel delivers in it to the accumulator, which lives in the socket and not in the
  future. Proved once from it: any sequence of receives, whichever of them are dropped while they
  wait, hands out exactly what the accumulator makes of the chunks delivered meanwhile.
\<close>

section \<open>Sessions\<close>

text \<open>
  A session: any number of turns, of one receive or of many, with what they report and the chunks
  the kernel delivers meanwhile.
\<close>

fun session :: "('s \<Rightarrow> 'r turn \<times> 's) \<Rightarrow> ('s \<Rightarrow> chunk list) \<Rightarrow> nat \<Rightarrow> 's \<Rightarrow> 'r turn list \<times> chunk list \<times> 's" where
  "session t chunks 0 s = ([], [], s)"
| "session t chunks (Suc n) s = (case t s of (r, s') \<Rightarrow>
     case session t chunks n s' of (rs, cs, s'') \<Rightarrow> (r # rs, chunks s @ cs, s''))"

text \<open>A sequence of receives, each polled at most the given number of times and dropped if it still waits.\<close>

fun receives :: "('s \<Rightarrow> 'r turn \<times> 's) \<Rightarrow> nat list \<Rightarrow> 's \<Rightarrow> 'r list \<times> 's" where
  "receives t [] s = ([], s)"
| "receives t (n # ns) s = (case run_turns t n s of
     (Return r, s') \<Rightarrow> (case receives t ns s' of (rs, s'') \<Rightarrow> (r # rs, s''))
   | (Again, s') \<Rightarrow> receives t ns s'
   | (Panicked, s') \<Rightarrow> ([], s'))"

fun returned :: "'r turn \<Rightarrow> 'r option" where
  "returned (Return r) = Some r"
| "returned _ = None"

fun ok_result :: "'e + 'a \<Rightarrow> 'a option" where
  "ok_result (Inr x) = Some x"
| "ok_result (Inl _) = None"

fun turn_result :: "('e + 'a) turn \<Rightarrow> 'a option" where
  "turn_result (Return (Inr x)) = Some x"
| "turn_result _ = None"

lemma map_filter_append: "List.map_filter f (xs @ ys) = List.map_filter f xs @ List.map_filter f ys"
  by (simp add: map_filter_def)

lemma map_filter_returned:
  "List.map_filter ok_result (List.map_filter returned ts) = List.map_filter turn_result ts"
proof (induction ts)
  case Nil
  then show ?case by (simp add: map_filter_def)
next
  case (Cons t ts)
  then show ?case
    by (cases t rule: turn_result.cases) (simp_all add: List.map_filter_simps)
qed

lemma session_add:
  "session t chunks (m + n) s = (case session t chunks m s of (rs, cs, s') \<Rightarrow>
     case session t chunks n s' of (rs', cs', s'') \<Rightarrow> (rs @ rs', cs @ cs', s''))"
  by (induction m arbitrary: s) (auto split: prod.splits)

lemma run_turns_session:
  "run_turns t n s = (r, s') \<Longrightarrow>
   \<exists>k ts cs. k \<le> n \<and> session t chunks k s = (ts, cs, s')
     \<and> List.map_filter returned ts = (case r of Return x \<Rightarrow> [x] | _ \<Rightarrow> []) \<and> (r = Panicked \<longrightarrow> Panicked \<in> set ts)"
proof (induction n arbitrary: s)
  case 0
  then show ?case by (intro exI [of _ 0]) (auto simp: map_filter_def)
next
  case (Suc n)
  obtain u s1 where u: "t s = (u, s1)" by fastforce
  show ?case
  proof (cases u)
    case Again
    with Suc.prems u have "run_turns t n s1 = (r, s')" by simp
    then obtain k ts cs where "k \<le> n" "session t chunks k s1 = (ts, cs, s')"
      "List.map_filter returned ts = (case r of Return x \<Rightarrow> [x] | _ \<Rightarrow> [])" "r = Panicked \<longrightarrow> Panicked \<in> set ts"
      using Suc.IH by blast
    with Again u show ?thesis
      by (intro exI [of _ "Suc k"] exI [of _ "Again # ts"] exI [of _ "chunks s @ cs"])
        (auto simp: List.map_filter_simps)
  next
    case (Return x)
    with Suc.prems u show ?thesis by (intro exI [of _ "Suc 0"]) (auto simp: List.map_filter_simps)
  next
    case Panicked
    with Suc.prems u show ?thesis by (intro exI [of _ "Suc 0"]) (auto simp: List.map_filter_simps)
  qed
qed

section \<open>The contract of a receive\<close>

locale receiver =
  fixes turn :: "'s \<Rightarrow> ('e + 'x) turn \<times> 's"
    and chunks :: "'s \<Rightarrow> chunk list"
    and acc :: "'s \<Rightarrow> bytes"
    and inv :: "'s \<Rightarrow> bool"
    and push :: "bytes \<Rightarrow> chunk \<Rightarrow> Step \<times> bytes"
    and report :: "Step \<Rightarrow> 'x option"
  assumes turn_feeds: "inv s \<Longrightarrow> turn s = (t, s') \<Longrightarrow> t \<noteq> Panicked \<and> inv s'
      \<and> acc s' = snd (feed push (acc s) (chunks s))
      \<and> List.map_filter turn_result [t] = List.map_filter report (fst (feed push (acc s) (chunks s)))"
begin

lemma session_feeds:
  "inv s \<Longrightarrow> session turn chunks n s = (ts, cs, s') \<Longrightarrow>
     inv s' \<and> Panicked \<notin> set ts \<and> acc s' = snd (feed push (acc s) cs)
   \<and> List.map_filter turn_result ts = List.map_filter report (fst (feed push (acc s) cs))"
proof (induction n arbitrary: s ts cs)
  case 0
  then show ?case by (simp add: map_filter_def)
next
  case (Suc n)
  obtain t s1 where t: "turn s = (t, s1)" by fastforce
  note f = turn_feeds [OF Suc.prems(1) t]
  obtain ts1 cs1 where s1: "session turn chunks n s1 = (ts1, cs1, s')" and ts: "ts = t # ts1"
    and cs: "cs = chunks s @ cs1"
    using Suc.prems(2) t by (auto split: prod.splits)
  have "List.map_filter turn_result ts = List.map_filter turn_result [t] @ List.map_filter turn_result ts1"
    by (simp only: ts map_filter_append [symmetric] append_Cons append_Nil)
  with Suc.IH [OF _ s1] f ts show ?case
    by (auto simp: cs feed_append map_filter_append split: prod.splits)
qed

lemma receives_session:
  "inv s \<Longrightarrow> receives turn ns s = (rs, s') \<Longrightarrow>
   \<exists>k ts cs. k \<le> sum_list ns \<and> session turn chunks k s = (ts, cs, s') \<and> rs = List.map_filter returned ts"
proof (induction ns arbitrary: s rs)
  case Nil
  then show ?case by (intro exI [of _ 0]) (auto simp: map_filter_def)
next
  case (Cons n ns)
  obtain r s1 where r: "run_turns turn n s = (r, s1)" by fastforce
  obtain k ts cs where k: "k \<le> n" "session turn chunks k s = (ts, cs, s1)"
    "List.map_filter returned ts = (case r of Return x \<Rightarrow> [x] | _ \<Rightarrow> [])" "r = Panicked \<longrightarrow> Panicked \<in> set ts"
    using run_turns_session [OF r] by blast
  note f = session_feeds [OF Cons.prems(1) k(2)]
  with k(4) have np: "r \<noteq> Panicked" by auto
  obtain rs1 where rs1: "receives turn ns s1 = (rs1, s')"
    and rs: "rs = (case r of Return x \<Rightarrow> [x] | _ \<Rightarrow> []) @ rs1"
    using Cons.prems(2) r np by (cases r) (auto split: prod.splits)
  obtain k' ts' cs' where "k' \<le> sum_list ns" "session turn chunks k' s1 = (ts', cs', s')"
    "rs1 = List.map_filter returned ts'"
    using Cons.IH [OF _ rs1] f by blast
  with k rs show ?case
    by (intro exI [of _ "k + k'"] exI [of _ "ts @ ts'"] exI [of _ "cs @ cs'"])
      (simp add: session_add map_filter_append)
qed

theorem receives_exact:
  assumes "inv s" and "receives turn ns s = (rs, s')"
  shows "\<exists>k ts cs. k \<le> sum_list ns \<and> session turn chunks k s = (ts, cs, s') \<and> Panicked \<notin> set ts
    \<and> rs = List.map_filter returned ts
    \<and> List.map_filter ok_result rs = List.map_filter report (fst (feed push (acc s) cs))
    \<and> acc s' = snd (feed push (acc s) cs) \<and> inv s'"
proof -
  obtain k ts cs where k: "k \<le> sum_list ns" "session turn chunks k s = (ts, cs, s')" "rs = List.map_filter returned ts"
    using receives_session [OF assms] by blast
  with session_feeds [OF assms(1) k(2)] show ?thesis
    by (auto simp: map_filter_returned)
qed

end

section \<open>The chunk of a turn\<close>

text \<open>The chunk the kernel delivers to a turn that reads from \<open>fd\<close>, if it delivers one.\<close>

definition ready_chunks :: "('w, 'x) kernel_scheme \<Rightarrow> i32 \<Rightarrow> bool \<Rightarrow> 'w sys \<Rightarrow> chunk list" where
  "ready_chunks K fd want s = (case k_ready K fd READABLE (kern s) of
     (Ready, w) \<Rightarrow> (let out = fst (k_recvmsg K fd RECV_WINDOW want w) in
        if neg (ro_ret out) \<or> ro_ret out = 0 then [] else [answer_chunk K want out])
   | _ \<Rightarrow> [])"

lemma poll_ready_sys:
  "poll_ready K fd i s = (fst (k_ready K fd i (kern s)),
     \<lparr>kern = snd (k_ready K fd i (kern s)), trace = trace s @ [Call_ready fd i]\<rparr>)"
  by (simp add: poll_ready_def syscall_def split: prod.splits)

text \<open>A step after a poll that was ready: it fails and there is no chunk, or it pushes the chunk.\<close>

lemma ready_step_cases:
  assumes "recvmsg_ok K" and "reassembly_inv r" and "poll_ready K fd READABLE s = (Ready, s1)"
    and "recv_step K fd want r s1 = (st, r', s2)"
  obtains (nothing) "ready_chunks K fd want s = []" "st = Some WouldBlock \<or> (\<exists>e. st = Some (StepErr e))"
      "buf r' = buf r" "reassembly_inv r'"
  | (chunk) c where "ready_chunks K fd want s = [c]" "st = Some (fst (push_input (target_endian K) (buf r) c))"
      "buf r' = snd (push_input (target_endian K) (buf r) c)" "reassembly_inv r'"
proof -
  let ?out = "recv_answer K fd want s1"
  have rd: "fst (k_ready K fd READABLE (kern s)) = Ready" "s1 = snd (poll_ready K fd READABLE s)"
    using assms(3) by (simp_all add: poll_ready_sys)
  then have cs: "ready_chunks K fd want s = (if neg (ro_ret ?out) \<or> ro_ret ?out = 0 then [] else [answer_chunk K want ?out])"
    by (auto simp: ready_chunks_def recv_answer_def poll_ready_sys Let_def split: prod.splits readiness.splits)
  note o = recv_step_outcome [OF assms(1,2,4)]
  show ?thesis
  proof (cases "neg (ro_ret ?out) \<or> ro_ret ?out = 0")
    case True
    show ?thesis by (rule nothing) (use True o cs in \<open>auto split: if_splits\<close>)
  next
    case False
    show ?thesis by (rule chunk) (use False o cs in auto)
  qed
qed

lemma ready_chunks_not_ready:
  "poll_ready K fd READABLE s = (rd, s1) \<Longrightarrow> rd \<noteq> Ready \<Longrightarrow> ready_chunks K fd want s = []"
  by (auto simp: ready_chunks_def poll_ready_sys split: prod.splits readiness.splits)

section \<open>A receive that returns messages only\<close>

text \<open>The kernel hands out the given chunks, one at each poll.\<close>

fun delivers :: "('w, 'x) kernel_scheme \<Rightarrow> bool \<Rightarrow> i32 \<Rightarrow> 'w \<Rightarrow> chunk list \<Rightarrow> bool" where
  "delivers K want fd w [] \<longleftrightarrow> True"
| "delivers K want fd w (c # cs) \<longleftrightarrow>
     (case k_ready K fd READABLE w of (rd, w1) \<Rightarrow>
      case k_recvmsg K fd RECV_WINDOW want w1 of (out, w2) \<Rightarrow>
        rd = Ready \<and> \<not> neg (ro_ret out) \<and> ro_ret out \<noteq> 0 \<and> answer_chunk K want out = c \<and>
        delivers K want fd w2 cs)"

lemma delivers_step:
  assumes "recvmsg_ok K" and "reassembly_inv r" and "delivers K want fd (kern s) (c # cs)"
  shows "\<exists>s1 r' s'. poll_ready K fd READABLE s = (Ready, s1) \<and> delivers K want fd (kern s') cs
    \<and> recv_step K fd want r s1 = (Some (fst (push_input (target_endian K) (buf r) c)), r', s')
    \<and> buf r' = snd (push_input (target_endian K) (buf r) c) \<and> reassembly_inv r'"
proof -
  obtain w1 out w2 where k: "k_ready K fd READABLE (kern s) = (Ready, w1)"
    "k_recvmsg K fd RECV_WINDOW want w1 = (out, w2)" "\<not> neg (ro_ret out)" "ro_ret out \<noteq> 0"
    "answer_chunk K want out = c" "delivers K want fd w2 cs"
    using assms(3) by (auto split: prod.splits)
  let ?s1 = "snd (poll_ready K fd READABLE s)"
  have p: "poll_ready K fd READABLE s = (Ready, ?s1)" using k(1) by (simp add: poll_ready_sys)
  have a: "recv_answer K fd want ?s1 = out"
    using k(1,2) by (simp add: recv_answer_def poll_ready_sys)
  have w: "kern (after_recv K fd want ?s1) = w2"
    using k(1,2) by (simp add: after_recv_def poll_ready_sys)
  note c = recv_step_chunk [OF assms(1,2), of fd want ?s1]
  have inv: "reassembly_inv (fst (snd (recv_step K fd want r ?s1)))"
    by (rule recv_step_inv [OF assms(1,2)])
  from p a w c inv k show ?thesis by auto
qed

lemma push_input_cases:
  assumes "push_input e b c = (st, b')"
  shows "\<not> is_data_chunk c \<Longrightarrow> (\<exists>n. st = StepNotification n) \<and> b' = b"
    and "is_data_chunk c \<Longrightarrow> \<not> is_last_chunk c \<Longrightarrow> st = More \<and> b' = b @ fst c"
    and "is_data_chunk c \<Longrightarrow> is_last_chunk c \<Longrightarrow>
      st = Complete (b @ fst c) (fst (snd (message_of e b c))) (snd (snd (message_of e b c))) \<and> b' = []"
proof -
  obtain d flags sinfo addr where c: "c = (d, flags, sinfo, addr)" by (cases c)
  show "\<not> is_data_chunk c \<Longrightarrow> (\<exists>n. st = StepNotification n) \<and> b' = b"
    "is_data_chunk c \<Longrightarrow> \<not> is_last_chunk c \<Longrightarrow> st = More \<and> b' = b @ fst c"
    "is_data_chunk c \<Longrightarrow> is_last_chunk c \<Longrightarrow>
      st = Complete (b @ fst c) (fst (snd (message_of e b c))) (snd (snd (message_of e b c))) \<and> b' = []"
    using assms by (auto simp: c push_chunk_def info_of_def Let_def)
qed

text \<open>
  The contract of a receive that skips notifications: it takes one chunk a turn, goes on after a
  notification or a part, and returns what it makes of a complete message. \<open>offers\<close> says which chunks
  the kernel hands out next; \<open>acceptable\<close> is what the receive requires of the last part.
\<close>

locale message_reader =
  fixes turn :: "'s \<Rightarrow> ('e + 'm) turn \<times> 's"
    and acc :: "'s \<Rightarrow> bytes"
    and inv :: "'s \<Rightarrow> bool"
    and offers :: "'s \<Rightarrow> chunk list \<Rightarrow> bool"
    and order :: endian
    and acceptable :: "chunk \<Rightarrow> bool"
    and made :: "bytes \<times> RecvInfo \<times> SocketAddr option \<Rightarrow> 'm"
  assumes goes_on: "inv s \<Longrightarrow> offers s (c # cs) \<Longrightarrow> \<not> (is_data_chunk c \<and> is_last_chunk c) \<Longrightarrow>
      \<exists>s'. turn s = (Again, s') \<and> inv s' \<and> offers s' cs \<and> acc s' = snd (push_input order (acc s) c)"
    and returns: "inv s \<Longrightarrow> offers s (c # cs) \<Longrightarrow> is_data_chunk c \<Longrightarrow> is_last_chunk c \<Longrightarrow> acceptable c \<Longrightarrow>
      \<exists>s'. turn s = (Return (Inr (made (message_of order (acc s @ fst c) c))), s') \<and> inv s' \<and> offers s' cs \<and> acc s' = []"
begin

lemma run_returns:
  "inv s \<Longrightarrow> offers s (cs @ rest) \<Longrightarrow> is_record is_last_chunk (filter is_data_chunk cs) \<Longrightarrow> is_data_chunk (last cs) \<Longrightarrow>
   acceptable (last cs) \<Longrightarrow>
   \<exists>s'. run_turns turn (length cs) s =
     (Return (Inr (made (message_of order (acc s @ concat (map fst (filter is_data_chunk cs))) (last cs)))), s')
     \<and> inv s' \<and> offers s' rest \<and> acc s' = []"
proof (induction cs arbitrary: s)
  case Nil
  then show ?case by (simp add: is_record_def)
next
  case (Cons c cs)
  show ?case
  proof (cases "cs = []")
    case True
    then have "is_data_chunk c" "is_last_chunk c" "acceptable c"
      using Cons.prems(3-5) by (auto simp: is_record_def split: if_splits)
    with returns [of s c "cs @ rest"] Cons.prems(1,2) True show ?thesis by auto
  next
    case False
    have parts: "\<not> (is_data_chunk c \<and> is_last_chunk c)" "is_record is_last_chunk (filter is_data_chunk cs)"
      using Cons.prems(3,4) False by (auto simp: is_record_def filter_empty_conv split: if_splits)
    obtain s1 where s1: "turn s = (Again, s1)" "inv s1" "offers s1 (cs @ rest)" "acc s1 = snd (push_input order (acc s) c)"
      using goes_on [OF Cons.prems(1) _ parts(1), of "cs @ rest"] Cons.prems(2) by auto
    have acc: "acc s1 = acc s @ (if is_data_chunk c then fst c else [])"
      using s1(4) push_input_cases [of order "acc s" c "fst (push_input order (acc s) c)" "snd (push_input order (acc s) c)"]
        parts(1) by auto
    from Cons.IH [OF s1(2,3) parts(2)] Cons.prems(4,5) False s1(1) acc show ?thesis by auto
  qed
qed

end

end
