(* ===== verification/Config.thy ===== *)
theory Config
  imports Sample_Kernel
begin

text \<open>
  \<open>src/config.rs\<close>: the options that are set on a socket before it binds, listens or connects.
\<close>

section \<open>The configuration\<close>

record InitMsg =
  out_streams :: u16
  max_in_streams :: u16
  max_attempts :: u16
  max_init_timeo :: u16

definition default_InitMsg :: InitMsg where
  "default_InitMsg = \<lparr>out_streams = 0, max_in_streams = 0, max_attempts = 0, max_init_timeo = 0\<rparr>"

record SctpConfig =
  init :: "InitMsg option"
  nodelay :: "bool option"
  recv_buf :: "usize option"
  send_buf :: "usize option"
  autoclose_secs :: "u32 option"

definition default_SctpConfig :: SctpConfig where
  "default_SctpConfig = \<lparr>init = None, nodelay = None, recv_buf = None, send_buf = None, autoclose_secs = None\<rparr>"

text \<open>\<open>get_or_insert(InitMsg::default())\<close> and the fluent setters.\<close>

definition init_or_default :: "SctpConfig \<Rightarrow> InitMsg" where
  "init_or_default c = (case init c of Some i \<Rightarrow> i | None \<Rightarrow> default_InitMsg)"

definition cfg_new :: SctpConfig where
  "cfg_new = default_SctpConfig"

definition cfg_streams :: "SctpConfig \<Rightarrow> u16 \<Rightarrow> u16 \<Rightarrow> SctpConfig" where
  "cfg_streams c out max_in =
     c\<lparr>init := Some ((init_or_default c)\<lparr>out_streams := out, max_in_streams := max_in\<rparr>)\<rparr>"

definition cfg_init_retransmit :: "SctpConfig \<Rightarrow> u16 \<Rightarrow> u16 \<Rightarrow> SctpConfig" where
  "cfg_init_retransmit c attempts timeo_ms =
     c\<lparr>init := Some ((init_or_default c)\<lparr>max_attempts := attempts, max_init_timeo := timeo_ms\<rparr>)\<rparr>"

definition cfg_nodelay :: "SctpConfig \<Rightarrow> bool \<Rightarrow> SctpConfig" where
  "cfg_nodelay c on = c\<lparr>nodelay := Some on\<rparr>"

definition cfg_recv_buf :: "SctpConfig \<Rightarrow> usize \<Rightarrow> SctpConfig" where
  "cfg_recv_buf c n = c\<lparr>recv_buf := Some n\<rparr>"

definition cfg_send_buf :: "SctpConfig \<Rightarrow> usize \<Rightarrow> SctpConfig" where
  "cfg_send_buf c n = c\<lparr>send_buf := Some n\<rparr>"

definition cfg_autoclose :: "SctpConfig \<Rightarrow> u32 \<Rightarrow> SctpConfig" where
  "cfg_autoclose c secs = c\<lparr>autoclose_secs := Some secs\<rparr>"

section \<open>Applying it\<close>

definition setsockopt :: "('w, 'x) kernel_scheme \<Rightarrow> i32 \<Rightarrow> i32 \<Rightarrow> i32 \<Rightarrow> bytes \<Rightarrow>
    (SctpError, unit, 'w sys) prog" where
  "setsockopt K fd level opt val =
     and_then (checked K (syscall (\<lambda>_. Call_setsockopt fd level opt val) (k_setsockopt K fd level opt val)))
       (\<lambda>_. ok ())"

text \<open>\<open>if let Some(x) = o { f(x)?; }\<close>\<close>

definition if_some :: "'a option \<Rightarrow> ('a \<Rightarrow> ('e, unit, 's) prog) \<Rightarrow> ('e, unit, 's) prog" where
  "if_some x f = (case x of None \<Rightarrow> ok () | Some y \<Rightarrow> f y)"

definition init_msg_of :: "InitMsg \<Rightarrow> SctpInitMsg" where
  "init_msg_of i = \<lparr>sinit_num_ostreams = out_streams i, sinit_max_instreams = max_in_streams i,
     sinit_max_attempts = max_attempts i, sinit_max_init_timeo = max_init_timeo i\<rparr>"

definition config_apply :: "('w, 'x) kernel_scheme \<Rightarrow> SctpConfig \<Rightarrow> i32 \<Rightarrow> (SctpError, unit, 'w sys) prog" where
  "config_apply K c fd = (let e = target_endian K in
     and_then (if_some (init c) (\<lambda>i.
       setsockopt K fd SOL_SCTP SCTP_INITMSG (init_msg_bytes e (init_msg_of i)))) (\<lambda>_.
     and_then (if_some (nodelay c) (\<lambda>on.
       setsockopt K fd SOL_SCTP SCTP_NODELAY (c_int_bytes e (of_bool on)))) (\<lambda>_.
     and_then (if_some (recv_buf c) (\<lambda>b.
       setsockopt K fd (SOL_SOCKET K) (SO_RCVBUF K) (c_int_bytes e (ucast b)))) (\<lambda>_.
     and_then (if_some (send_buf c) (\<lambda>b.
       setsockopt K fd (SOL_SOCKET K) (SO_SNDBUF K) (c_int_bytes e (ucast b)))) (\<lambda>_.
     if_some (autoclose_secs c) (\<lambda>secs.
       setsockopt K fd SOL_SCTP SCTP_AUTOCLOSE (c_int_bytes e (ucast secs))))))))"

section \<open>What is set\<close>

text \<open>The options of a configuration, in the order they are set.\<close>

definition config_options :: "'x libc_scheme \<Rightarrow> SctpConfig \<Rightarrow> (i32 \<times> i32 \<times> bytes) list" where
  "config_options L c = (let e = target_endian L in
     (case init c of None \<Rightarrow> [] | Some i \<Rightarrow> [(SOL_SCTP, SCTP_INITMSG,
        ne_bytes e 2 (out_streams i) @ ne_bytes e 2 (max_in_streams i) @ ne_bytes e 2 (max_attempts i)
        @ ne_bytes e 2 (max_init_timeo i))])
     @ (case nodelay c of None \<Rightarrow> [] | Some on \<Rightarrow> [(SOL_SCTP, SCTP_NODELAY, ne_bytes e 4 (if on then 1 else 0 :: i32))])
     @ (case recv_buf c of None \<Rightarrow> [] | Some b \<Rightarrow> [(SOL_SOCKET L, SO_RCVBUF L, ne_bytes e 4 (ucast b :: i32))])
     @ (case send_buf c of None \<Rightarrow> [] | Some b \<Rightarrow> [(SOL_SOCKET L, SO_SNDBUF L, ne_bytes e 4 (ucast b :: i32))])
     @ (case autoclose_secs c of None \<Rightarrow> [] | Some t \<Rightarrow> [(SOL_SCTP, SCTP_AUTOCLOSE, ne_bytes e 4 t)]))"

fun set_all :: "('w, 'x) kernel_scheme \<Rightarrow> i32 \<Rightarrow> (i32 \<times> i32 \<times> bytes) list \<Rightarrow> (SctpError, unit, 'w sys) prog" where
  "set_all K fd [] = ok ()"
| "set_all K fd ((level, opt, val) # os) = and_then (setsockopt K fd level opt val) (\<lambda>_. set_all K fd os)"

lemma set_all_append: "set_all K fd (xs @ ys) = and_then (set_all K fd xs) (\<lambda>_. set_all K fd ys)"
  by (induction xs) (auto simp: and_then_assoc)

lemma and_then_ok_right: "and_then m ok = m"
  by (rule ext) (auto simp: and_then_def prog_apply split: prod.splits sum.splits)

lemma if_some_set_all:
  "if_some x (\<lambda>y. setsockopt K fd (l y) (opt y) (v y)) =
   set_all K fd (case x of None \<Rightarrow> [] | Some y \<Rightarrow> [(l y, opt y, v y)])"
  by (simp add: if_some_def and_then_ok_right split: option.splits)

lemma config_apply_set_all: "config_apply K c fd = set_all K fd (config_options K c)"
  unfolding config_apply_def config_options_def Let_def if_some_set_all set_all_append
  by (simp add: init_msg_bytes_def init_msg_of_def c_int_bytes_def split: option.splits)

lemma setsockopt_cases:
  assumes "setsockopt K fd l opt v s = (r, s')"
  shows "trace s' = trace s @ [Call_setsockopt fd l opt v] \<and>
    (r = Inr () \<and> \<not> neg (fst (k_setsockopt K fd l opt v (kern s))) \<or>
     r = Inl (Io (last_os_error K s')) \<and> neg (fst (k_setsockopt K fd l opt v (kern s))))"
  using assms by (auto simp: setsockopt_def and_then_def checked_def check_ret_def syscall_def
      last_os_error_def prog_apply split: prod.splits if_splits)

lemma set_all_trace:
  assumes "set_all K fd os s = (r, s')"
  shows "\<exists>k. k \<le> length os \<and> trace s' = trace s @ map (\<lambda>(l, opt, v). Call_setsockopt fd l opt v) (take k os)
    \<and> (r = Inr () \<and> k = length os \<or> r = Inl (Io (last_os_error K s')) \<and> 0 < k)"
  using assms
proof (induction os arbitrary: s)
  case Nil
  then show ?case by (simp add: prog_apply)
next
  case (Cons x os)
  obtain l opt v where x: "x = (l, opt, v)" by (cases x)
  from Cons.prems x have eq: "and_then (setsockopt K fd l opt v) (\<lambda>_. set_all K fd os) s = (r, s')" by simp
  then show ?case
  proof (cases rule: and_then_cases)
    case (fails e)
    with setsockopt_cases [OF fails(1)] x show ?thesis by (intro exI [of _ 1]) auto
  next
    case (goes_on y s1)
    obtain k where "k \<le> length os"
      "trace s' = trace s1 @ map (\<lambda>(l, opt, v). Call_setsockopt fd l opt v) (take k os)"
      "r = Inr () \<and> k = length os \<or> r = Inl (Io (last_os_error K s')) \<and> 0 < k"
      using Cons.IH [OF goes_on(2)] by blast
    with setsockopt_cases [OF goes_on(1)] x show ?thesis by (intro exI [of _ "Suc k"]) auto
  qed
qed

text \<open>What the kernel answers when it is asked for one option after the other, and its worlds.\<close>

fun option_answers :: "('w, 'x) kernel_scheme \<Rightarrow> i32 \<Rightarrow> (i32 \<times> i32 \<times> bytes) list \<Rightarrow> 'w \<Rightarrow> (i32 \<times> 'w) list" where
  "option_answers K fd [] w = []"
| "option_answers K fd ((level, opt, val) # os) w =
     (case k_setsockopt K fd level opt val w of (ret, w') \<Rightarrow> (ret, w') # option_answers K fd os w')"

lemma setsockopt_exact:
  "setsockopt K fd l opt v s = (case k_setsockopt K fd l opt v (kern s) of (ret, w) \<Rightarrow>
     (if neg ret then Inl (Io (Os (k_errno K w))) else Inr (),
      \<lparr>kern = w, trace = trace s @ [Call_setsockopt fd l opt v]\<rparr>))"
  by (auto simp: setsockopt_def and_then_def checked_def check_ret_def syscall_def last_os_error_def prog_apply
      split: prod.splits)

lemma set_all_exact:
  "set_all K fd os s = (let answers = option_answers K fd os (kern s);
       m = length (takeWhile (\<lambda>(ret, w). \<not> neg ret) answers) in
     (if m = length os then Inr () else Inl (Io (Os (k_errno K (snd (answers ! m))))),
      \<lparr>kern = last (kern s # map snd (take (Suc m) answers)),
       trace = trace s @ map (\<lambda>(l, opt, v). Call_setsockopt fd l opt v) (take (Suc m) os)\<rparr>))"
proof (induction os arbitrary: s)
  case Nil
  then show ?case by (simp add: prog_apply)
next
  case (Cons x os)
  obtain l opt v where x: "x = (l, opt, v)" by (cases x)
  obtain ret w where k: "k_setsockopt K fd l opt v (kern s) = (ret, w)" by fastforce
  let ?s1 = "\<lparr>kern = w, trace = trace s @ [Call_setsockopt fd l opt v]\<rparr>"
  show ?case
    using Cons.IH [of ?s1] by (simp add: x k and_then_def setsockopt_exact Let_def)
qed

lemma quiet_setsockopt [quiet_intros]: "quiet (setsockopt K fd l opt v)"
  unfolding setsockopt_def by (intro quiet_intros) simp

lemma quiet_set_all: "quiet (set_all K fd os)"
  by (induction os) (auto intro!: quiet_intros)

lemma quiet_config_apply [quiet_intros]: "quiet (config_apply K c fd)"
  by (simp add: config_apply_set_all quiet_set_all)

lemma emits_config_apply [emits_intros]:
  "emits (config_apply K c fd) {map (\<lambda>(l, opt, v). Call_setsockopt fd l opt v) (config_options K c)}"
proof (rule emitsI)
  fix s x s'
  assume "config_apply K c fd s = (Inr x, s')"
  from set_all_trace [OF this [unfolded config_apply_set_all]]
  show "\<exists>tr \<in> {map (\<lambda>(l, opt, v). Call_setsockopt fd l opt v) (config_options K c)}. trace s' = trace s @ tr"
    by auto
qed

section \<open>Properties\<close>

text \<open>
  C30: applying a configuration sets exactly the options it has, in a fixed order and with the values
  of the kernel's structures, and stops at the first that fails. If the kernel accepts the first \<open>m\<close>
  of them and no more, then it is asked for those and the next one, if there is one, and for nothing
  after; the result is \<open>Ok\<close> exactly when there is none left, and otherwise the error is what \<open>errno\<close> is
  after the call that failed. The configuration that sets nothing makes no call at all, so every kernel
  default stays.
\<close>

theorem config_apply_exact:
  "(let opts = config_options K c; answers = option_answers K fd opts (kern s);
        m = length (takeWhile (\<lambda>(ret, w). \<not> neg ret) answers) in
     config_apply K c fd s =
       (if m = length opts then Inr () else Inl (Io (Os (k_errno K (snd (answers ! m))))),
        \<lparr>kern = last (kern s # map snd (take (Suc m) answers)),
         trace = trace s @ map (\<lambda>(l, opt, v). Call_setsockopt fd l opt v) (take (Suc m) opts)\<rparr>))
   \<and> config_apply K cfg_new fd s = (Inr (), s)"
proof
  show "config_apply K cfg_new fd s = (Inr (), s)"
    by (simp add: config_apply_set_all config_options_def cfg_new_def default_SctpConfig_def prog_apply)
qed (simp add: config_apply_set_all set_all_exact Let_def)

text \<open>A kernel that refuses \<open>SCTP_NODELAY\<close>: the buffer size that would come after it is not set.\<close>

definition stubborn_kernel :: "sample_world kernel" where
  "stubborn_kernel = sample_kernel\<lparr>k_setsockopt := (\<lambda>_ _ opt _ w.
     if opt = SCTP_NODELAY then (-1, w\<lparr>err_no := 95\<rparr>) else (0, w))\<rparr>"

theorem config_apply_exact_witness:
  "\<exists>s'. config_apply stubborn_kernel (cfg_recv_buf (cfg_nodelay (cfg_streams cfg_new 10 20) True) 4096) 3 (sample_sys [] 0)
      = (Inl (Io (Os 95)), s')
    \<and> trace s' = [Call_setsockopt 3 132 2 [10, 0, 20, 0, 0, 0, 0, 0], Call_setsockopt 3 132 3 [1, 0, 0, 0]]"
proof -
  let ?c = "cfg_recv_buf (cfg_nodelay (cfg_streams cfg_new 10 20) True) 4096"
  have k: "k_setsockopt stubborn_kernel = (\<lambda>_ _ opt _ w. if opt = SCTP_NODELAY then (-1, w\<lparr>err_no := 95\<rparr>) else (0, w))"
    "k_errno stubborn_kernel = err_no" "target_endian stubborn_kernel = Little"
    by (simp_all add: stubborn_kernel_def sample_calls)
  have b: "le_bytes 2 (10 :: u16) @ le_bytes 2 (20 :: u16) @ le_bytes 2 (0 :: u16) @ le_bytes 2 (0 :: u16) = [10, 0, 20, 0, 0, 0, 0, 0]"
    "le_bytes 4 (1 :: i32) = [1, 0, 0, 0]" "le_bytes 4 (4096 :: i32) = [0, 16, 0, 0]"
    by code_simp+
  have o: "config_options stubborn_kernel ?c = [(132, 2, [10, 0, 20, 0, 0, 0, 0, 0]), (132, 3, [1, 0, 0, 0]),
      (SOL_SOCKET stubborn_kernel, SO_RCVBUF stubborn_kernel, [0, 16, 0, 0])]"
    by (simp add: config_options_def cfg_recv_buf_def cfg_nodelay_def cfg_streams_def cfg_new_def default_SctpConfig_def
        init_or_default_def default_InitMsg_def k b Let_def SOL_SCTP_def SCTP_INITMSG_def SCTP_NODELAY_def)
  note x = conjunct1 [OF config_apply_exact [of stubborn_kernel ?c 3 "sample_sys [] 0"]]
  show ?thesis
    using x by (simp add: o k Let_def SCTP_NODELAY_def neg_def sample_sys_def)
qed

text \<open>
  The two setters of the INIT parameters keep each other's values in either order, on a
  configuration with or without INIT parameters, and leave every other option alone.
\<close>

lemma cfg_init_setters:
  "cfg_init_retransmit (cfg_streams c out max_in) attempts timeo_ms
     = cfg_streams (cfg_init_retransmit c attempts timeo_ms) out max_in
   \<and> init (cfg_init_retransmit (cfg_streams c out max_in) attempts timeo_ms)
     = Some \<lparr>out_streams = out, max_in_streams = max_in, max_attempts = attempts, max_init_timeo = timeo_ms\<rparr>
   \<and> nodelay (cfg_streams c out max_in) = nodelay c \<and> recv_buf (cfg_streams c out max_in) = recv_buf c
   \<and> send_buf (cfg_streams c out max_in) = send_buf c \<and> autoclose_secs (cfg_streams c out max_in) = autoclose_secs c"
  by (cases "init c") (simp_all add: cfg_init_retransmit_def cfg_streams_def init_or_default_def default_InitMsg_def)

text \<open>
  A buffer size reaches the kernel unchanged exactly when it is below \<open>2 ^ 31\<close>: a larger
  \<open>usize\<close> is truncated to a \<open>c_int\<close> without an error.
\<close>

lemma buffer_size_truncation:
  "\<exists>v. trace (snd (config_apply K (cfg_recv_buf cfg_new b) fd s)) =
      trace s @ [Call_setsockopt fd (SOL_SOCKET K) (SO_RCVBUF K) (c_int_bytes (target_endian K) v)]
    \<and> (sint v = uint b \<longleftrightarrow> uint b < 2 ^ 31)"
proof (intro exI conjI)
  obtain r s' where ap: "config_apply K (cfg_recv_buf cfg_new b) fd s = (r, s')" by fastforce
  then have "setsockopt K fd (SOL_SOCKET K) (SO_RCVBUF K) (c_int_bytes (target_endian K) (ucast b)) s = (r, s')"
    by (simp add: config_apply_def cfg_recv_buf_def cfg_new_def default_SctpConfig_def if_some_def
        and_then_ok_right)
  from setsockopt_cases [OF this] ap
  show "trace (snd (config_apply K (cfg_recv_buf cfg_new b) fd s)) = trace s @
      [Call_setsockopt fd (SOL_SOCKET K) (SO_RCVBUF K) (c_int_bytes (target_endian K) (ucast b))]"
    by simp
  show "sint (ucast b :: i32) = uint b \<longleftrightarrow> uint b < 2 ^ 31"
    using unsigned_greater_eq [of b]
    by (auto simp: signed_ucast_eq signed_take_bit_int_eq_self_iff intro: order_trans [of _ 0])
qed

end
