(* ===== verification/Socket.thy ===== *)
theory Socket
  imports Addr Config Async Sample_Kernel
begin

text \<open>
  The helpers on a descriptor that \<open>src/association.rs\<close> holds and shares with the listener and the
  server (non-blocking mode, IPv6 mode, event subscription, the socket error, the probe of a
  connecting socket, the local bind, the address lists), \<open>src/reactor.rs\<close>, and the ownership of a
  descriptor: \<open>SctpSocket\<close>, \<open>ListenSocket\<close> and \<open>ServerSocket\<close> close theirs when they are
  dropped, which a Rust function does with its local variables on every return.
\<close>

unbundle bit_operations_syntax

section \<open>Ownership\<close>

text \<open>
  \<open>owning K fd m\<close>: \<open>m\<close> runs while a local variable owns \<open>fd\<close>; a return with an error drops the
  variable, which closes the descriptor.
\<close>

definition owning :: "('w, 'x) kernel_scheme \<Rightarrow> i32 \<Rightarrow> (SctpError, 'a, 'w sys) prog \<Rightarrow>
    (SctpError, 'a, 'w sys) prog" where
  "owning K fd m = (\<lambda>s. case m s of
     (Inl e, s') \<Rightarrow> (Inl e, close_fd K fd s')
   | (Inr x, s') \<Rightarrow> (Inr x, s'))"

text \<open>
  \<open>reactor::register\<close>: the socket is moved into the registration. If that fails, the error that
  tokio returns holds the socket and its conversion to \<open>io::Error\<close> drops it.
\<close>

definition register :: "('w, 'x) kernel_scheme \<Rightarrow> i32 \<Rightarrow> (SctpError, unit, 'w sys) prog" where
  "register K fd = (\<lambda>s. case syscall (\<lambda>_. Call_register fd) (k_register K fd) s of
     (Inl e, s') \<Rightarrow> (Inl (Io e), close_fd K fd s')
   | (Inr _, s') \<Rightarrow> (Inr (), s'))"

section \<open>Options of a descriptor\<close>

definition set_nonblocking :: "('w, 'x) kernel_scheme \<Rightarrow> i32 \<Rightarrow> (SctpError, unit, 'w sys) prog" where
  "set_nonblocking K fd =
     and_then (checked K (syscall (\<lambda>_. Call_fcntl fd (F_GETFL K) None) (k_fcntl K fd (F_GETFL K) None))) (\<lambda>flags.
     and_then (checked K (syscall (\<lambda>_. Call_fcntl fd (F_SETFL K) (Some (flags OR O_NONBLOCK K)))
       (k_fcntl K fd (F_SETFL K) (Some (flags OR O_NONBLOCK K))))) (\<lambda>_. ok ()))"

text \<open>Options whose result is ignored.\<close>

definition set_v6only :: "('w, 'x) kernel_scheme \<Rightarrow> i32 \<Rightarrow> bool \<Rightarrow> (SctpError, unit, 'w sys) prog" where
  "set_v6only K fd on = (\<lambda>s. (Inr (), snd (
     let v = c_int_bytes (target_endian K) (of_bool on) in
     syscall (\<lambda>_. Call_setsockopt fd (IPPROTO_IPV6 K) (IPV6_V6ONLY K) v)
       (k_setsockopt K fd (IPPROTO_IPV6 K) (IPV6_V6ONLY K) v) s)))"

definition set_reuseaddr :: "('w, 'x) kernel_scheme \<Rightarrow> i32 \<Rightarrow> (SctpError, unit, 'w sys) prog" where
  "set_reuseaddr K fd = (\<lambda>s. (Inr (), snd (
     let v = c_int_bytes (target_endian K) 1 in
     syscall (\<lambda>_. Call_setsockopt fd (SOL_SOCKET K) (SO_REUSEADDR K) v)
       (k_setsockopt K fd (SOL_SOCKET K) (SO_REUSEADDR K) v) s)))"

definition configure_events :: "('w, 'x) kernel_scheme \<Rightarrow> i32 \<Rightarrow> (SctpError, unit, 'w sys) prog" where
  "configure_events K fd =
     (let v = event_subscribe_bytes default_SctpEventSubscribe in
      and_then (checked K (syscall (\<lambda>_. Call_setsockopt fd SOL_SCTP SCTP_EVENTS v)
        (k_setsockopt K fd SOL_SCTP SCTP_EVENTS v))) (\<lambda>_. ok ()))"

definition check_so_error :: "('w, 'x) kernel_scheme \<Rightarrow> i32 \<Rightarrow> (SctpError, unit, 'w sys) prog" where
  "check_so_error K fd = (\<lambda>s.
     case syscall (\<lambda>_. Call_getsockopt fd (SOL_SOCKET K) (SO_ERROR K))
       (k_getsockopt K fd (SOL_SOCKET K) (SO_ERROR K)) s of
     ((ret, err_val), s') \<Rightarrow>
       if neg ret then (Inl (Io (last_os_error K s')), s')
       else if err_val \<noteq> 0 then (Inl (Io (Os err_val)), s')
       else (Inr (), s'))"

section \<open>Binding\<close>

definition bind_primary :: "('w, 'x) kernel_scheme \<Rightarrow> i32 \<Rightarrow> SocketAddr \<Rightarrow> (SctpError, unit, 'w sys) prog" where
  "bind_primary K fd primary = (case to_raw K primary of (sockaddr, socklen) \<Rightarrow>
     and_then (checked K (syscall (\<lambda>_. Call_bind fd (take socklen sockaddr))
       (k_bind K fd (take socklen sockaddr)))) (\<lambda>_. ok ()))"

definition bind_further :: "('w, 'x) kernel_scheme \<Rightarrow> i32 \<Rightarrow> SocketAddr list \<Rightarrow> (SctpError, unit, 'w sys) prog" where
  "bind_further K fd addrs = (if length addrs > 1 then
     (let packed = pack K (tl addrs); n = word_of_nat (length addrs - 1) in
      and_then (checked K (syscall (\<lambda>_. Call_bindx fd packed n SCTP_BINDX_ADD_ADDR)
        (k_bindx K fd packed n SCTP_BINDX_ADD_ADDR))) (\<lambda>_. ok ()))
   else ok ())"

definition bind_local :: "('w, 'x) kernel_scheme \<Rightarrow> i32 \<Rightarrow> SocketAddr list \<Rightarrow> (SctpError, unit, 'w sys) prog" where
  "bind_local K fd local =
     and_then (set_reuseaddr K fd) (\<lambda>_.
     case local of
       [] \<Rightarrow> ok ()
     | primary # _ \<Rightarrow> and_then (bind_primary K fd primary) (\<lambda>_. bind_further K fd local))"

section \<open>The outcome of a connect\<close>

datatype Connecting = Established | Failed | Pending

definition probe :: "('w, 'x) kernel_scheme \<Rightarrow> i32 \<Rightarrow> 'w sys \<Rightarrow> Connecting \<times> 'w sys" where
  "probe K fd s = (case syscall (\<lambda>_. Call_poll fd (POLLOUT K) 0) (k_poll K fd (POLLOUT K) 0) s of
     ((ret, revents), s') \<Rightarrow>
       (if sint ret > 0 \<and> revents AND POLLOUT K \<noteq> 0 then Established
        else if sint ret > 0 \<and> revents AND (POLLERR K OR POLLHUP K OR POLLNVAL K) \<noteq> 0 then Failed
        else Pending, s'))"

definition outcome :: "('w, 'x) kernel_scheme \<Rightarrow> i32 \<Rightarrow> (SctpError, Connecting, 'w sys) prog" where
  "outcome K fd = and_then (check_so_error K fd) (\<lambda>_ s. case probe K fd s of (c, s') \<Rightarrow> (Inr c, s'))"

text \<open>
  One turn of \<open>established\<close>: the \<open>select!\<close> polls writability first and, while \<open>both\<close> holds,
  readability. The variable \<open>both\<close> lives across the await point, so it is part of the state.
\<close>

fun finish_connect :: "bool \<Rightarrow> Connecting \<Rightarrow> 'w sys \<Rightarrow> (SctpError + unit) turn \<times> bool \<times> 'w sys" where
  "finish_connect both Established s = (Return (Inr ()), both, s)"
| "finish_connect both Failed s = (Return (Inl NotConnected), both, s)"
| "finish_connect both Pending s = (Again, both, s)"

definition established_turn :: "('w, 'x) kernel_scheme \<Rightarrow> i32 \<Rightarrow> bool \<times> 'w sys \<Rightarrow>
    (SctpError + unit) turn \<times> bool \<times> 'w sys" where
  "established_turn K fd = (\<lambda>(both, s).
     case poll_ready K fd WRITABLE s of
       (ReadyErr e, s1) \<Rightarrow> (Return (Inl (Io e)), both, s1)
     | (Ready, s1) \<Rightarrow>
         (case outcome K fd s1 of
            (Inl e, s2) \<Rightarrow> (Return (Inl e), both, s2)
          | (Inr c, s2) \<Rightarrow> finish_connect both c (if c = Pending then clear_ready K fd WRITABLE s2 else s2))
     | (NotReady, s1) \<Rightarrow>
         (if both then
            (case poll_ready K fd READABLE s1 of
               (ReadyErr e, s2) \<Rightarrow> (Return (Inl (Io e)), both, s2)
             | (Ready, s2) \<Rightarrow>
                 (case outcome K fd s2 of
                    (Inl e, s3) \<Rightarrow> (Return (Inl e), False, s3)
                  | (Inr c, s3) \<Rightarrow> finish_connect False c s3)
             | (NotReady, s2) \<Rightarrow> (Again, both, s2))
          else (Again, both, s1)))"

definition established :: "('w, 'x) kernel_scheme \<Rightarrow> i32 \<Rightarrow> nat \<Rightarrow> 'w sys \<Rightarrow>
    (SctpError + unit) turn \<times> bool \<times> 'w sys" where
  "established K fd n s = run_turns (established_turn K fd) n (True, s)"

section \<open>Addresses of an association\<close>

definition addrs_via :: "('w, 'x) kernel_scheme \<Rightarrow> i32 \<Rightarrow> i32 \<Rightarrow> bool \<Rightarrow>
    (SctpError, SocketAddr list, 'w sys) prog" where
  "addrs_via K fd aid peer = (\<lambda>s.
     case (if peer then syscall (\<lambda>(_, ptr, _). Call_getpaddrs fd aid ptr) (k_getpaddrs K fd aid) s
           else syscall (\<lambda>(_, ptr, _). Call_getladdrs fd aid ptr) (k_getladdrs K fd aid) s) of
     ((n, ptr, mem), s1) \<Rightarrow>
       if neg n then (Inl (Io (last_os_error K s1)), s1)
       else (Inr (parse_array K mem n),
             if peer then syscall_unit (Call_freepaddrs ptr) (k_freepaddrs K ptr) s1
             else syscall_unit (Call_freeladdrs ptr) (k_freeladdrs K ptr) s1))"

section \<open>Descriptors are left alone\<close>

lemma quiet_ignored: "(\<And>r. plain (c r)) \<Longrightarrow> quiet (\<lambda>s. (Inr (), snd (syscall c f s)))"
  by (rule quietI) simp

lemma quiet_set_nonblocking [quiet_intros]: "quiet (set_nonblocking K fd)"
  unfolding set_nonblocking_def by (intro quiet_intros) simp_all

lemma quiet_set_v6only [quiet_intros]: "quiet (set_v6only K fd on)"
  unfolding set_v6only_def Let_def by (rule quiet_ignored) simp

lemma quiet_set_reuseaddr [quiet_intros]: "quiet (set_reuseaddr K fd)"
  unfolding set_reuseaddr_def Let_def by (rule quiet_ignored) simp

lemma quiet_configure_events [quiet_intros]: "quiet (configure_events K fd)"
  unfolding configure_events_def Let_def by (intro quiet_intros) simp

lemma quiet_check_so_error [quiet_intros]: "quiet (check_so_error K fd)"
  by (rule quietI) (auto simp: check_so_error_def syscall_def split: prod.splits)

lemma quiet_bind_primary [quiet_intros]: "quiet (bind_primary K fd a)"
  unfolding bind_primary_def by (auto intro!: quiet_intros split: prod.splits)

lemma quiet_bind_further [quiet_intros]: "quiet (bind_further K fd addrs)"
  unfolding bind_further_def Let_def by (intro quiet_intros) simp

lemma quiet_bind_local [quiet_intros]: "quiet (bind_local K fd local)"
  unfolding bind_local_def by (cases local) (auto intro!: quiet_intros)

lemma quiet_probe [quiet_intros]: "quiet (probe K fd)"
  by (rule quietI) (auto simp: probe_def syscall_def split: prod.splits)

lemma quiet_outcome [quiet_intros]: "quiet (outcome K fd)"
  unfolding outcome_def by (intro quiet_intros quiet_pair)
    (rule quietI, simp)

lemma quiet_poll_ready [quiet_intros]: "quiet (poll_ready K fd i)"
  unfolding poll_ready_def by (intro quiet_intros) simp

lemma quiet_addrs_via [quiet_intros]: "quiet (addrs_via K fd aid peer)"
  by (rule quietI) (auto simp: addrs_via_def syscall_def syscall_unit_def split: prod.splits)

lemma clear_ready_trace [simp]: "trace (clear_ready K fd i s) = trace s @ [Call_clear_ready fd i]"
  by (simp add: clear_ready_def)

section \<open>The calls of the helpers\<close>

text \<open>The calls by which a descriptor is made non-blocking: the flags it had, and one more.\<close>

definition nonblocking_calls :: "('w, 'x) kernel_scheme \<Rightarrow> i32 \<Rightarrow> i32 \<Rightarrow> call list" where
  "nonblocking_calls K fd flags =
     [Call_fcntl fd (F_GETFL K) None, Call_fcntl fd (F_SETFL K) (Some (flags OR O_NONBLOCK K))]"

definition reuse_call :: "('w, 'x) kernel_scheme \<Rightarrow> i32 \<Rightarrow> call" where
  "reuse_call K fd = Call_setsockopt fd (SOL_SOCKET K) (SO_REUSEADDR K) (c_int_bytes (target_endian K) 1)"

definition v6_calls :: "('w, 'x) kernel_scheme \<Rightarrow> i32 \<Rightarrow> i32 \<Rightarrow> call list" where
  "v6_calls K domain fd = (if domain = AF_INET6 K
     then [Call_setsockopt fd (IPPROTO_IPV6 K) (IPV6_V6ONLY K) (c_int_bytes (target_endian K) 0)] else [])"

definition option_calls :: "('w, 'x) kernel_scheme \<Rightarrow> SctpConfig \<Rightarrow> i32 \<Rightarrow> call list" where
  "option_calls K c fd = map (\<lambda>(l, opt, v). Call_setsockopt fd l opt v) (config_options K c)"

definition events_call :: "i32 \<Rightarrow> call" where
  "events_call fd = Call_setsockopt fd SOL_SCTP SCTP_EVENTS (event_subscribe_bytes default_SctpEventSubscribe)"

definition bind_calls :: "('w, 'x) kernel_scheme \<Rightarrow> i32 \<Rightarrow> SocketAddr list \<Rightarrow> call list" where
  "bind_calls K fd addrs = (case addrs of [] \<Rightarrow> []
   | a # as \<Rightarrow> Call_bind fd (raw_bytes K a) #
       (if as = [] then [] else [Call_bindx fd (pack K as) (word_of_nat (length as)) SCTP_BINDX_ADD_ADDR]))"

lemma emits_set_nonblocking [emits_intros]:
  "emits (set_nonblocking K fd) (range (nonblocking_calls K fd))"
proof (rule emitsI)
  fix s x s'
  assume a: "set_nonblocking K fd s = (Inr x, s')"
  show "\<exists>tr \<in> range (nonblocking_calls K fd). trace s' = trace s @ tr"
    using a unfolding set_nonblocking_def
  proof (cases rule: and_then_cases)
    case (goes_on flags s1)
    with emitsD [OF emits_checked_unit goes_on(2)] emitsD [OF emits_checked goes_on(1)] show ?thesis
      by (intro bexI [of _ "nonblocking_calls K fd flags"]) (auto simp: nonblocking_calls_def)
  qed simp
qed

lemma emits_ignored: "emits (\<lambda>s. (Inr (), snd (syscall (\<lambda>_. c) f s))) {[c]}"
  by (rule emitsI) auto

lemma emits_set_v6only:
  "emits (if domain = AF_INET6 K then set_v6only K fd False else ok ()) {v6_calls K domain fd}"
  using emits_ignored emits_ok by (auto simp: v6_calls_def set_v6only_def Let_def)

lemma emits_set_reuseaddr [emits_intros]: "emits (set_reuseaddr K fd) {[reuse_call K fd]}"
  unfolding set_reuseaddr_def reuse_call_def Let_def by (rule emits_ignored)

lemma emits_configure_events [emits_intros]: "emits (configure_events K fd) {[events_call fd]}"
  unfolding configure_events_def events_call_def Let_def by (intro emits_intros)

lemma emits_bind:
  "emits (and_then (bind_primary K fd a) (\<lambda>_. bind_further K fd (a # as))) {bind_calls K fd (a # as)}"
proof -
  have p: "emits (bind_primary K fd a) {[Call_bind fd (raw_bytes K a)]}"
    unfolding bind_primary_def raw_bytes_def by (cases "to_raw K a") (auto intro!: emits_intros)
  have f: "emits (bind_further K fd (a # as))
    (if as = [] then {[]} else {[Call_bindx fd (pack K as) (word_of_nat (length as)) SCTP_BINDX_ADD_ADDR]})"
    unfolding bind_further_def Let_def by (auto intro!: emits_intros)
  from emits_and_then [OF p f] show ?thesis
    by (simp add: bind_calls_def split: if_splits)
qed

lemma emits_bind_local: "emits (if local \<noteq> [] then bind_local K fd local else ok ())
    {if local \<noteq> [] then reuse_call K fd # bind_calls K fd local else []}"
proof (cases local)
  case Nil
  then show ?thesis by (auto intro: emits_intros)
next
  case (Cons a as)
  have "emits (bind_local K fd local) (followed_by {[reuse_call K fd]} {bind_calls K fd local})"
    unfolding bind_local_def using emits_bind [of K fd a as] Cons by (intro emits_intros) simp
  with Cons show ?thesis by simp
qed

lemma emits_register [emits_intros]: "emits (register K fd) {[Call_register fd]}"
  by (rule emitsI) (auto simp: register_def syscall_def split: prod.splits sum.splits)

lemma emits_owning [emits_intros]: "emits m T \<Longrightarrow> emits (owning K fd m) T"
  by (rule emitsI) (auto simp: owning_def dest: emitsD split: prod.splits sum.splits)

section \<open>The contract of a constructor\<close>

text \<open>The calls a program has added to the trace.\<close>

definition new_calls :: "'w sys \<Rightarrow> 'w sys \<Rightarrow> call list" where
  "new_calls s s' = drop (length (trace s)) (trace s')"

lemma new_calls_append: "trace s' = trace s @ tr \<Longrightarrow> new_calls s s' = tr"
  by (simp add: new_calls_def)

lemma new_calls_same [simp]: "new_calls s s = []"
  by (simp add: new_calls_def)

text \<open>
  What every function that creates a socket promises: a success hands exactly one open descriptor to
  the caller; with an error nothing stays open that was not open before. \<open>surplus\<close> says how often
  the calls made have closed a descriptor more than once.
\<close>

locale fd_constructor =
  fixes make :: "('e, 'a, 'w sys) prog"
    and owned :: "'a \<Rightarrow> i32"
    and surplus :: "call list \<Rightarrow> i32 \<Rightarrow> int"
  assumes error_balance: "make s = (Inl e, s') \<Longrightarrow>
      balance fd (trace s') = balance fd (trace s) - surplus (new_calls s s') fd"
    and ok_balance: "make s = (Inr x, s') \<Longrightarrow>
      balance fd (trace s') = balance fd (trace s) + (if fd = owned x then 1 else 0)"
begin

text \<open>Dropping what was made gives back what was there before.\<close>

lemma make_then_close:
  "make s = (Inr x, s') \<Longrightarrow> balance fd (trace (close_fd K (owned x) s')) = balance fd (trace s)"
  using ok_balance [of s x s' fd] by (simp add: balance_Cons)

text \<open>Nothing leaks: where nothing is closed too often, an attempt leaves open only what it returned.\<close>

lemma make_balance:
  assumes "make s = (r, s')" and "\<And>e. r = Inl e \<Longrightarrow> surplus (new_calls s s') fd = 0"
  shows "balance fd (trace s') = balance fd (trace s) + (case r of Inl _ \<Rightarrow> 0 | Inr x \<Rightarrow> if fd = owned x then 1 else 0)"
  using assms error_balance [of s _ s' fd] ok_balance [of s _ s' fd] by (cases r) auto

end

text \<open>Rules to show it: how the balance moves through the combinators.\<close>

lemma owning_cases:
  assumes "owning K fd m s = (r, s')"
  obtains (failed) e s1 where "m s = (Inl e, s1)" "r = Inl e" "s' = close_fd K fd s1"
  | (passed) x where "m s = (Inr x, s')" "r = Inr x"
  using assms by (auto simp: owning_def split: prod.splits sum.splits)

lemma owning_quiet_balance:
  assumes "quiet m" and "owning K fd m s = (r, s')"
  shows "balance d (trace s') = balance d (trace s) - (case r of Inl _ \<Rightarrow> if d = fd then 1 else 0 | Inr _ \<Rightarrow> 0)"
  using assms(2)
proof (cases rule: owning_cases)
  case (failed e s1)
  with quiet_balance' [OF assms(1) failed(1), of d] show ?thesis by (auto simp: balance_Cons)
next
  case (passed x)
  with quiet_balance' [OF assms(1) passed(1), of d] show ?thesis by simp
qed

lemma register_balance:
  assumes "register K fd s = (r, s')"
  shows "balance d (trace s') = balance d (trace s) - (case r of Inl _ \<Rightarrow> if d = fd then 1 else 0 | Inr _ \<Rightarrow> 0)"
  using assms by (auto simp: register_def syscall_def balance_Cons split: prod.splits sum.splits)

lemma socket_balance:
  assumes "checked K (syscall (Call_socket dm ty pr) (k_socket K dm ty pr)) s = (r, s')"
  shows "balance d (trace s') = balance d (trace s) + (case r of Inl _ \<Rightarrow> 0 | Inr fd \<Rightarrow> if d = fd then 1 else 0)"
  using assms by (auto simp: checked_def check_ret_def syscall_def balance_Cons split: prod.splits if_splits)

section \<open>Binding a listening socket\<close>

text \<open>
  The shape of the two \<open>bind_impl\<close>: a socket, its setup that ends with the registration, and a
  close of the descriptor when the setup returns an error.
\<close>

definition bind_with :: "('w, 'x) kernel_scheme \<Rightarrow> i32 \<Rightarrow> i32 \<Rightarrow> (i32 \<Rightarrow> (SctpError, unit, 'w sys) prog) \<Rightarrow>
    (i32 \<Rightarrow> 'a) \<Rightarrow> (SctpError, 'a, 'w sys) prog" where
  "bind_with K domain ty m mk =
     and_then (checked K (syscall (Call_socket domain ty IPPROTO_SCTP) (k_socket K domain ty IPPROTO_SCTP))) (\<lambda>fd.
     and_then (owning K fd (and_then (m fd) (\<lambda>_. register K fd))) (\<lambda>_. ok (mk fd)))"

lemma bind_with_cases:
  assumes "bind_with K domain ty m mk s = (r, s' :: 'w sys)" and "\<And>fd. quiet (m fd)"
  obtains (no_socket) fd e where "r = Inl e" "trace s' = trace s @ [Call_socket domain ty IPPROTO_SCTP fd]" "neg fd"
  | (not_set_up) fd e tr where "r = Inl e" "\<not> neg fd" "\<forall>c \<in> set tr. plain c"
      "trace s' = trace s @ Call_socket domain ty IPPROTO_SCTP fd # tr @ [Call_close fd]"
  | (not_registered) fd e tr s2 where "r = Inl (Io e)" "\<not> neg fd" "\<forall>c \<in> set tr. plain c" "fst (k_register K fd (kern (s2 :: 'w sys))) = Inl e"
      "trace s' = trace s @ Call_socket domain ty IPPROTO_SCTP fd # tr @ [Call_register fd, Call_close fd, Call_close fd]"
  | (bound) fd tr where "r = Inr (mk fd)" "\<not> neg fd" "\<forall>c \<in> set tr. plain c"
      "trace s' = trace s @ Call_socket domain ty IPPROTO_SCTP fd # tr @ [Call_register fd]"
proof -
  obtain d s1 where sock: "syscall (Call_socket domain ty IPPROTO_SCTP) (k_socket K domain ty IPPROTO_SCTP) s = (d, s1)"
    by fastforce
  then have t1: "trace s1 = trace s @ [Call_socket domain ty IPPROTO_SCTP d]"
    by (auto simp: syscall_def split: prod.splits)
  obtain mr s2 where m: "m d s1 = (mr, s2)" by fastforce
  then obtain tr where t2: "trace s2 = trace s1 @ tr" and tr: "\<forall>c \<in> set tr. plain c"
    using assms(2) [of d] unfolding quiet_def by (metis snd_conv)
  obtain rr s3 where reg: "k_register K d (kern s2) = (rr, s3)" by fastforce
  show ?thesis
  proof (cases "neg d")
    case True
    with assms(1) sock t1 no_socket show ?thesis
      by (auto simp: bind_with_def and_then_def checked_def check_ret_def)
  next
    case False
    show ?thesis
    proof (cases mr)
      case (Inl e)
      with assms(1) sock m t1 t2 tr False not_set_up [of e d tr] show ?thesis
        by (auto simp: bind_with_def and_then_def checked_def check_ret_def owning_def)
    next
      case (Inr u)
      with assms(1) sock m reg t1 t2 tr False not_registered [of _ d tr s2] bound [of d tr] show ?thesis
        by (cases rr) (auto simp: bind_with_def and_then_def checked_def check_ret_def owning_def register_def
            syscall_def prog_apply)
    qed
  qed
qed

lemma bind_with_fd_constructor:
  assumes "\<And>fd. quiet (m fd)" and "\<And>fd. owned (mk fd) = fd"
  shows "fd_constructor (bind_with K domain ty m mk) owned (\<lambda>tr fd. of_bool (Call_register fd \<in> set tr))"
proof
  fix s s' e fd
  assume "bind_with K domain ty m mk s = (Inl e, s')"
  then show "balance fd (trace s') = balance fd (trace s) - of_bool (Call_register fd \<in> set (new_calls s s'))"
    by (rule bind_with_cases [OF _ assms(1)])
      (auto simp: balance_Cons balance_plain new_calls_append of_bool_def)
next
  fix s s' x fd
  assume "bind_with K domain ty m mk s = (Inr x, s')"
  then show "balance fd (trace s') = balance fd (trace s) + (if fd = owned x then 1 else 0)"
    by (rule bind_with_cases [OF _ assms(1)]) (auto simp: balance_Cons balance_plain assms(2))
qed

lemma bind_with_registers:
  assumes "registers K" and "\<And>fd. quiet (m fd)" and "bind_with K domain ty m mk s = (Inl e, s')"
  shows "Call_register fd \<notin> set (new_calls s s')"
  using assms(3)
  by (rule bind_with_cases [OF _ assms(2)])
    (use assms(1) in \<open>auto simp: new_calls_append registers_def\<close>)

lemma bind_with_double_close:
  assumes "\<And>fd. quiet (m fd)" and "bind_with K domain ty m mk s = (Inl e, s')"
    and "Call_register fd \<in> set (new_calls s s')"
  shows "(\<exists>tr. trace s' = trace s @ tr @ [Call_register fd, Call_close fd, Call_close fd])
    \<and> balance fd (trace s') = balance fd (trace s) - 1"
  using assms(2)
  by (rule bind_with_cases [OF _ assms(1)])
    (use assms(3) in \<open>auto simp: new_calls_append balance_Cons balance_plain\<close>)

lemma bind_with_Inr:
  assumes "\<And>fd. emits (m fd) (T fd)" and "bind_with K domain ty m mk s = (Inr x, s')"
  shows "\<exists>fd. x = mk fd \<and> (\<exists>tr \<in> T fd. trace s' = trace s @ Call_socket domain ty IPPROTO_SCTP fd # tr @ [Call_register fd])"
  using assms(2) unfolding bind_with_def
proof (cases rule: and_then_cases)
  case (goes_on fd s1)
  have t1: "trace s1 = trace s @ [Call_socket domain ty IPPROTO_SCTP fd]"
    using goes_on(1) by (auto simp: checked_def check_ret_def syscall_def split: prod.splits if_splits)
  from goes_on(2) show ?thesis
  proof (cases rule: and_then_cases)
    case (goes_on u s2)
    have "emits (owning K fd (and_then (m fd) (\<lambda>_. register K fd))) (followed_by (T fd) {[Call_register fd]})"
      by (intro emits_intros assms(1))
    from emitsD [OF this goes_on(1)] goes_on(2) t1 show ?thesis
      by (intro exI [of _ fd]) (auto simp: followed_by_def prog_apply)
  qed simp
qed simp

section \<open>Properties\<close>

lemma finish_connect_Return:
  "finish_connect both c s = (Return r, both', s') \<Longrightarrow>
   (r = Inr () \<and> c = Established \<or> r = Inl NotConnected \<and> c = Failed) \<and> s' = s"
  by (cases c) auto

lemma finish_connect_state: "finish_connect both c s = (r, both', s') \<Longrightarrow> both' = both \<and> s' = s"
  by (cases c) auto

lemma outcome_trace:
  "\<exists>tr. trace (snd (outcome K fd s)) = trace s @ tr \<and> Call_ready fd READABLE \<notin> set tr"
proof -
  obtain r s1 where c: "check_so_error K fd s = (r, s1)" by fastforce
  then have "trace s1 = trace s @ [Call_getsockopt fd (SOL_SOCKET K) (SO_ERROR K)]"
    by (auto simp: check_so_error_def syscall_def split: prod.splits if_splits)
  with c show ?thesis
    by (cases r) (auto simp: outcome_def and_then_def probe_def syscall_def split: prod.splits)
qed

lemma outcome_Inr:
  assumes "outcome K fd s = (Inr c, s')"
  shows "\<exists>s1. check_so_error K fd s = (Inr (), s1) \<and> probe K fd s1 = (c, s')"
  using assms unfolding outcome_def
  by (cases rule: and_then_cases) (auto split: prod.splits)

lemma poll_ready_trace: "poll_ready K fd i s = (rd, s') \<Longrightarrow> trace s' = trace s @ [Call_ready fd i]"
  by (auto simp: poll_ready_def syscall_def split: prod.splits)

text \<open>A turn only adds to the trace, and one that reports success ends with the two calls that justify it.\<close>

lemma established_turn_extends: "\<exists>tr. trace (snd (snd (established_turn K fd (both, s)))) = trace s @ tr"
proof -
  obtain rd s1 where p: "poll_ready K fd WRITABLE s = (rd, s1)" by fastforce
  obtain rd2 s2 where p2: "poll_ready K fd READABLE s1 = (rd2, s2)" by fastforce
  obtain oc s3 where o: "outcome K fd s1 = (oc, s3)" by fastforce
  obtain oc2 s4 where o2: "outcome K fd s2 = (oc2, s4)" by fastforce
  have fin: "snd (snd (finish_connect b c x)) = x" for b c x by (cases c) simp_all
  from outcome_trace [of K fd s1] outcome_trace [of K fd s2] o o2 p p2 poll_ready_trace [OF p] poll_ready_trace [OF p2]
  show ?thesis
    by (cases rd; cases rd2; cases oc; cases oc2) (auto simp: established_turn_def fin clear_ready_def)
qed

definition connect_evidence :: "('w, 'x) kernel_scheme \<Rightarrow> i32 \<Rightarrow> 'w sys \<Rightarrow> 'w sys \<Rightarrow> bool" where
  "connect_evidence K fd s0 s' \<longleftrightarrow> (\<exists>ret w1 n revents. k_getsockopt K fd (SOL_SOCKET K) (SO_ERROR K) (kern s0) = ((ret, 0), w1)
     \<and> \<not> neg ret \<and> k_poll K fd (POLLOUT K) 0 w1 = ((n, revents), kern s') \<and> 0 < sint n \<and> revents AND POLLOUT K \<noteq> 0
     \<and> trace s' = trace s0 @ [Call_getsockopt fd (SOL_SOCKET K) (SO_ERROR K), Call_poll fd (POLLOUT K) 0])"

lemma outcome_evidence:
  assumes "outcome K fd s = (Inr Established, s')"
  shows "connect_evidence K fd s s'"
  using assms unfolding outcome_def
  by (cases rule: and_then_cases)
    (auto simp: connect_evidence_def check_so_error_def probe_def syscall_def split: prod.splits if_splits)

lemma established_turn_Ok:
  assumes "established_turn K fd (both, s) = (Return (Inr ()), both', s')"
  shows "\<exists>s0 tr. trace s0 = trace s @ tr \<and> connect_evidence K fd s0 s'"
proof -
  obtain rd s1 where p: "poll_ready K fd WRITABLE s = (rd, s1)" by fastforce
  obtain rd2 s2 where p2: "poll_ready K fd READABLE s1 = (rd2, s2)" by fastforce
  have "outcome K fd s1 = (Inr Established, s') \<or> outcome K fd s2 = (Inr Established, s')"
    using assms p p2 by (auto simp: established_turn_def split: prod.splits readiness.splits sum.splits if_splits
      dest!: finish_connect_Return)
  with outcome_evidence [of K fd] poll_ready_trace [OF p] poll_ready_trace [OF p2] show ?thesis by fastforce
qed

lemma run_turns_Return:
  assumes "run_turns t n s = (Return x, s')"
  shows "\<exists>s0. t s0 = (Return x, s')"
  using assms by (induction n arbitrary: s) (auto split: prod.splits turn.splits)

lemma run_turns_Return_from:
  assumes "\<And>x. P x \<Longrightarrow> P (snd (t x))" and "P s" and "run_turns t n s = (Return x, s')"
  shows "\<exists>s0. P s0 \<and> t s0 = (Return x, s')"
  using assms(2,3)
proof (induction n arbitrary: s)
  case (Suc n)
  obtain u s1 where u: "t s = (u, s1)" by fastforce
  with Suc assms(1) [of s] show ?case by (cases u) auto
qed simp

text \<open>
  C29: a connect is reported as established only on the kernel's word, given in the last two calls it made:
  the socket error was read as zero, and then a poll that does not wait answered that the socket is writable.
\<close>

theorem established_sound:
  assumes "established K fd n s = (Return (Inr ()), both, s')"
  shows "\<exists>w0 tr ret w1 m revents. trace s' = trace s @ tr @ [Call_getsockopt fd (SOL_SOCKET K) (SO_ERROR K), Call_poll fd (POLLOUT K) 0]
    \<and> k_getsockopt K fd (SOL_SOCKET K) (SO_ERROR K) w0 = ((ret, 0), w1) \<and> \<not> neg ret
    \<and> k_poll K fd (POLLOUT K) 0 w1 = ((m, revents), kern s') \<and> 0 < sint m \<and> revents AND POLLOUT K \<noteq> 0"
proof -
  have keep: "(\<exists>tr. trace (snd (snd (established_turn K fd x))) = trace s @ tr)" if "\<exists>tr. trace (snd x) = trace s @ tr" for x
    using that established_turn_extends [of K fd "fst x" "snd x"] by auto
  obtain both0 s1 tr1 where "trace s1 = trace s @ tr1" "established_turn K fd (both0, s1) = (Return (Inr ()), both, s')"
    using run_turns_Return_from [of "\<lambda>x. \<exists>tr. trace (snd x) = trace s @ tr" "established_turn K fd", OF keep _ assms [unfolded established_def]]
    by auto
  then obtain s0 tr where "trace s0 = trace s @ tr" "connect_evidence K fd s0 s'"
    using established_turn_Ok [of K fd both0 s1 both s'] by auto
  then show ?thesis unfolding connect_evidence_def by (metis append.assoc)
qed

lemmas outcome_eval = established_def established_turn_def poll_ready_def syscall_def outcome_def and_then_def
  check_so_error_def probe_def sample_calls sample_sys_def neg_def prog_apply

theorem established_sound_witness:
  "\<exists>both s' tr. established sample_kernel 3 1 (sample_sys [] 1) = (Return (Inr ()), both, s')
    \<and> trace s' = tr @ [Call_getsockopt 3 (SOL_SOCKET sample_kernel) (SO_ERROR sample_kernel), Call_poll 3 (POLLOUT sample_kernel) 0]"
proof -
  obtain both s' where c: "established sample_kernel 3 1 (sample_sys [] 1) = (Return (Inr ()), both, s')"
    by (simp add: outcome_eval)
  have "trace (sample_sys [] 1) = []" by (simp add: sample_sys_def)
  with established_sound [OF c] c show ?thesis by fastforce
qed

text \<open>
  A connect that the far end refuses does not wait for a writability that never comes: if the
  kernel reports the socket readable and not writable and has an error on it, the first poll returns
  that error.
\<close>

lemma refused_connect_returns:
  assumes "k_ready K fd WRITABLE (kern s) = (NotReady, w1)" and "k_ready K fd READABLE w1 = (Ready, w2)"
    and "k_getsockopt K fd (SOL_SOCKET K) (SO_ERROR K) w2 = ((ret, e), w3)" and "\<not> neg ret" and "e \<noteq> 0"
  shows "fst (established K fd (Suc n) s) = Return (Inl (Io (Os e)))"
  using assms
  by (simp add: established_def established_turn_def poll_ready_def outcome_def and_then_def
      check_so_error_def syscall_def)

definition sample_refused :: "sample_world sys" where
  "sample_refused = \<lparr>kern = \<lparr>inq = [([], 0, default_SctpSndRcvInfo)], room = 0, sent = [], so_error = 111, err_no = 0,
     reg_fails = False, edge = True\<rparr>, trace = []\<rparr>"

text \<open>
  What is queued stays for \<open>recv\<close>: after a readability that decided nothing, the connect waits
  for writability only, so a readable socket does not make it spin.
\<close>

lemma established_waits_once_for_readable:
  assumes "established_turn K fd (False, s) = (r, both, s')"
  shows "both = False \<and> (\<exists>tr. trace s' = trace s @ tr \<and> Call_ready fd READABLE \<notin> set tr)"
proof -
  obtain rd s1 where p: "poll_ready K fd WRITABLE s = (rd, s1)" by fastforce
  then have t1: "trace s1 = trace s @ [Call_ready fd WRITABLE]"
    by (auto simp: poll_ready_def syscall_def split: prod.splits)
  show ?thesis
  proof (cases "rd = Ready")
    case True
    obtain oc s2 where oc: "outcome K fd s1 = (oc, s2)" by fastforce
    then obtain tr where "trace s2 = trace s1 @ tr" "Call_ready fd READABLE \<notin> set tr"
      using outcome_trace [of K fd s1] by auto
    with t1 True p oc assms show ?thesis
      by (cases oc) (auto simp: established_turn_def split: if_splits dest!: finish_connect_state)
  next
    case False
    with p t1 assms show ?thesis by (cases rd) (auto simp: established_turn_def)
  qed
qed

end
