(* ===== verification/Association.thy ===== *)
theory Association
  imports Socket Recv
begin

text \<open>
  \<open>src/association.rs\<close>: a one-to-one association, its connect, send and receive. The descriptor
  helpers of that file are in \<open>Socket\<close>.
\<close>

unbundle bit_operations_syntax

section \<open>State\<close>

text \<open>
  \<open>inner\<close> is the descriptor that the registered socket owns; \<open>ended\<close> says whether the semaphore
  of that name is closed. It has no permits, so acquiring it waits until it is closed and then fails.
\<close>

record SctpAssociation =
  inner :: i32
  recv_state :: Reassembly
  ended :: bool

record SendOptions =
  unordered :: bool
  ttl_ms :: u32
  abort :: bool
  eof :: bool

definition default_SendOptions :: SendOptions where
  "default_SendOptions = \<lparr>unordered = False, ttl_ms = 0, abort = False, eof = False\<rparr>"

definition opts_unordered :: "SendOptions \<Rightarrow> bool \<Rightarrow> SendOptions" where
  "opts_unordered opts v = opts\<lparr>unordered := v\<rparr>"

definition opts_ttl_ms :: "SendOptions \<Rightarrow> u32 \<Rightarrow> SendOptions" where
  "opts_ttl_ms opts ms = opts\<lparr>ttl_ms := ms\<rparr>"

definition opts_sinfo_flags :: "SendOptions \<Rightarrow> u32" where
  "opts_sinfo_flags opts =
     (let f = 0;
          f = (if unordered opts then f OR SCTP_UNORDERED else f);
          f = (if abort opts then f OR SCTP_ABORT else f);
          f = (if eof opts then f OR SCTP_EOF else f)
      in f)"

datatype RecvResult = Data bytes RecvInfo | RecvNotification Notification

definition new_association :: "i32 \<Rightarrow> SctpAssociation" where
  "new_association fd = \<lparr>inner = fd, recv_state = default_Reassembly, ended = False\<rparr>"

section \<open>Construction\<close>

text \<open>The socket object that closes \<open>fd\<close> on drop exists from the registration on.\<close>

definition from_raw_fd :: "('w, 'x) kernel_scheme \<Rightarrow> i32 \<Rightarrow> (SctpError, SctpAssociation, 'w sys) prog" where
  "from_raw_fd K fd =
     and_then (set_nonblocking K fd) (\<lambda>_.
     and_then (configure_events K fd) (\<lambda>_.
     and_then (register K fd) (\<lambda>_.
     ok (new_association fd))))"

definition connect_socket_setup :: "('w, 'x) kernel_scheme \<Rightarrow> i32 \<Rightarrow> i32 \<Rightarrow> SocketAddr list \<Rightarrow> SctpConfig \<Rightarrow>
    (SctpError, unit, 'w sys) prog" where
  "connect_socket_setup K domain fd local config =
     and_then (set_nonblocking K fd) (\<lambda>_.
     and_then (if domain = AF_INET6 K then set_v6only K fd False else ok ()) (\<lambda>_.
     and_then (config_apply K config fd) (\<lambda>_.
     and_then (configure_events K fd) (\<lambda>_.
     if local \<noteq> [] then bind_local K fd local else ok ()))))"

definition connectx :: "('w, 'x) kernel_scheme \<Rightarrow> i32 \<Rightarrow> SocketAddr list \<Rightarrow> (SctpError, unit, 'w sys) prog" where
  "connectx K fd addrs = (\<lambda>s. let packed = pack K addrs; n = word_of_nat (length addrs) in
     case syscall (\<lambda>_. Call_connectx fd packed n) (k_connectx K fd packed n) s of
     ((ret, _), s') \<Rightarrow>
       if neg ret \<and> last_os_error K s' \<noteq> Os (EINPROGRESS K) then (Inl (Io (last_os_error K s')), s')
       else (Inr (), s'))"

text \<open>\<open>connect_bound\<close> up to its await: the descriptor on which the outcome is awaited.\<close>

definition ports_differ :: "SocketAddr list \<Rightarrow> bool" where
  "ports_differ local = (case local of [] \<Rightarrow> False | first # _ \<Rightarrow> list_ex (\<lambda>a. port a \<noteq> port first) local)"

definition connect_start :: "('w, 'x) kernel_scheme \<Rightarrow> SocketAddr list \<Rightarrow> SocketAddr list \<Rightarrow> SctpConfig \<Rightarrow>
    (SctpError, i32, 'w sys) prog" where
  "connect_start K local addrs config =
     (if addrs = [] then err (Io (Custom InvalidInput ''no connect addresses''))
      else if ports_differ local then
        err (InvalidAddress ''the local addresses of one endpoint share one port'')
      else let domain = (if list_ex is_ipv6 (addrs @ local) then AF_INET6 K else AF_INET K) in
        and_then (checked K (syscall (Call_socket domain (SOCK_STREAM K) IPPROTO_SCTP)
          (k_socket K domain (SOCK_STREAM K) IPPROTO_SCTP))) (\<lambda>fd.
        and_then (owning K fd (connect_socket_setup K domain fd local config)) (\<lambda>_.
        and_then (register K fd) (\<lambda>_.
        and_then (owning K fd (connectx K fd addrs)) (\<lambda>_.
        ok fd)))))"

text \<open>
  The whole of \<open>connect_bound\<close>, polled at most \<open>n\<close> times. \<open>Again\<close> is a connect that still waits:
  its future owns the descriptor.
\<close>

definition connect_bound :: "('w, 'x) kernel_scheme \<Rightarrow> nat \<Rightarrow> SocketAddr list \<Rightarrow> SocketAddr list \<Rightarrow> SctpConfig \<Rightarrow>
    'w sys \<Rightarrow> (SctpError + SctpAssociation) turn \<times> 'w sys" where
  "connect_bound K n local addrs config s = (case connect_start K local addrs config s of
     (Inl e, s1) \<Rightarrow> (Return (Inl e), s1)
   | (Inr fd, s1) \<Rightarrow>
       (case established K fd n s1 of
          (Return (Inl e), _, s2) \<Rightarrow> (Return (Inl e), close_fd K fd s2)
        | (Return (Inr _), _, s2) \<Rightarrow> (Return (Inr (new_association fd)), s2)
        | (Again, _, s2) \<Rightarrow> (Again, s2)
        | (Panicked, _, s2) \<Rightarrow> (Panicked, s2)))"

definition connect_impl :: "('w, 'x) kernel_scheme \<Rightarrow> nat \<Rightarrow> SocketAddr list \<Rightarrow> SctpConfig \<Rightarrow>
    'w sys \<Rightarrow> (SctpError + SctpAssociation) turn \<times> 'w sys" where
  "connect_impl K n addrs config = connect_bound K n [] addrs config"

definition connect :: "('w, 'x) kernel_scheme \<Rightarrow> nat \<Rightarrow> SocketAddr \<Rightarrow>
    'w sys \<Rightarrow> (SctpError + SctpAssociation) turn \<times> 'w sys" where
  "connect K n addr = connect_impl K n [addr] default_SctpConfig"

definition connect_with :: "('w, 'x) kernel_scheme \<Rightarrow> nat \<Rightarrow> SocketAddr \<Rightarrow> SctpConfig \<Rightarrow>
    'w sys \<Rightarrow> (SctpError + SctpAssociation) turn \<times> 'w sys" where
  "connect_with K n addr config = connect_impl K n [addr] config"

definition connect_multi :: "('w, 'x) kernel_scheme \<Rightarrow> nat \<Rightarrow> SocketAddr list \<Rightarrow>
    'w sys \<Rightarrow> (SctpError + SctpAssociation) turn \<times> 'w sys" where
  "connect_multi K n addrs = connect_impl K n addrs default_SctpConfig"

definition connect_multi_with :: "('w, 'x) kernel_scheme \<Rightarrow> nat \<Rightarrow> SocketAddr list \<Rightarrow> SctpConfig \<Rightarrow>
    'w sys \<Rightarrow> (SctpError + SctpAssociation) turn \<times> 'w sys" where
  "connect_multi_with K n addrs config = connect_impl K n addrs config"

definition connect_from :: "('w, 'x) kernel_scheme \<Rightarrow> nat \<Rightarrow> SocketAddr list \<Rightarrow> SocketAddr list \<Rightarrow> SctpConfig \<Rightarrow>
    'w sys \<Rightarrow> (SctpError + SctpAssociation) turn \<times> 'w sys" where
  "connect_from K n local peer config = connect_bound K n local peer config"

section \<open>Sending\<close>

text \<open>
  One turn of \<open>send_with\<close>. The \<open>select!\<close> is biased: readiness is polled first, and the end of the
  association is looked at only when there is none.
\<close>

definition send_with_turn :: "('w, 'x) kernel_scheme \<Rightarrow> bytes \<Rightarrow> u16 \<Rightarrow> u32 \<Rightarrow> SendOptions \<Rightarrow>
    SctpAssociation \<times> 'w sys \<Rightarrow> (SctpError + usize) turn \<times> SctpAssociation \<times> 'w sys" where
  "send_with_turn K data sid pp opts = (\<lambda>(a, s). let fd = inner a in
     case poll_ready K fd WRITABLE_OR_ERROR s of
       (ReadyErr e, s1) \<Rightarrow> (Return (Inl (Io e)), a, s1)
     | (NotReady, s1) \<Rightarrow> if ended a then (Return (Inl NotConnected), a, s1) else (Again, a, s1)
     | (Ready, s1) \<Rightarrow>
         let pp' = to_be (target_endian K) 4 pp; flags = opts_sinfo_flags opts in
         (case syscall (Call_sendmsg fd data pp' flags sid (ttl_ms opts) 0)
            (k_sendmsg K fd data pp' flags sid (ttl_ms opts) 0) s1 of
          (ret, s2) \<Rightarrow>
            if neg ret then
              (let er = last_os_error K s2 in
               if is_would_block K er then (Again, a, clear_ready K fd WRITABLE_OR_ERROR s2)
               else (Return (Inl (Io er)), a, s2))
            else (Return (Inr (scast ret)), a, s2)))"

definition send_with :: "('w, 'x) kernel_scheme \<Rightarrow> nat \<Rightarrow> bytes \<Rightarrow> u16 \<Rightarrow> u32 \<Rightarrow> SendOptions \<Rightarrow>
    SctpAssociation \<times> 'w sys \<Rightarrow> (SctpError + usize) turn \<times> SctpAssociation \<times> 'w sys" where
  "send_with K n data sid pp opts = run_turns (send_with_turn K data sid pp opts) n"

definition send :: "('w, 'x) kernel_scheme \<Rightarrow> nat \<Rightarrow> bytes \<Rightarrow> u16 \<Rightarrow> u32 \<Rightarrow>
    SctpAssociation \<times> 'w sys \<Rightarrow> (SctpError + usize) turn \<times> SctpAssociation \<times> 'w sys" where
  "send K n data sid pp = send_with K n data sid pp default_SendOptions"

section \<open>Receiving\<close>

fun ends :: "Notification \<Rightarrow> bool" where
  "ends (AssocChange change) \<longleftrightarrow>
     (case state change of CommLost \<Rightarrow> True | ShutdownComp \<Rightarrow> True | CantStrAssoc \<Rightarrow> True | _ \<Rightarrow> False)"
| "ends _ \<longleftrightarrow> False"

definition recv_msg_turn :: "('w, 'x) kernel_scheme \<Rightarrow> SctpAssociation \<times> 'w sys \<Rightarrow>
    (SctpError + RecvResult) turn \<times> SctpAssociation \<times> 'w sys" where
  "recv_msg_turn K = (\<lambda>(a, s). let fd = inner a in
     case poll_ready K fd READABLE s of
       (ReadyErr e, s1) \<Rightarrow> (Return (Inl (Io e)), a, s1)
     | (NotReady, s1) \<Rightarrow> (Again, a, s1)
     | (Ready, s1) \<Rightarrow>
         (case recv_step K fd False (recv_state a) s1 of
          (step, r, s2) \<Rightarrow> let a' = a\<lparr>recv_state := r\<rparr> in
            (case step of
               None \<Rightarrow> (Panicked, a', s2)
             | Some WouldBlock \<Rightarrow>
                 if ended a' then (Return (Inl NotConnected), a', s2)
                 else (Again, a', clear_ready K fd READABLE s2)
             | Some More \<Rightarrow> (Again, a', s2)
             | Some (StepNotification n) \<Rightarrow>
                 (Return (Inr (RecvNotification n)), if ends n then a'\<lparr>ended := True\<rparr> else a', s2)
             | Some (Complete d info _) \<Rightarrow> (Return (Inr (Data d info)), a', s2)
             | Some (StepErr e) \<Rightarrow> (Return (Inl e), a', s2))))"

definition recv_msg :: "('w, 'x) kernel_scheme \<Rightarrow> nat \<Rightarrow> SctpAssociation \<times> 'w sys \<Rightarrow>
    (SctpError + RecvResult) turn \<times> SctpAssociation \<times> 'w sys" where
  "recv_msg K n = run_turns (recv_msg_turn K) n"

text \<open>
  \<open>recv\<close> awaits \<open>recv_msg\<close> again after a notification. A fresh \<open>recv_msg\<close> starts at its await
  point with nothing but the association, so a turn of \<open>recv\<close> is a turn of \<open>recv_msg\<close>.
\<close>

definition recv_turn :: "('w, 'x) kernel_scheme \<Rightarrow> SctpAssociation \<times> 'w sys \<Rightarrow>
    (SctpError + bytes \<times> RecvInfo) turn \<times> SctpAssociation \<times> 'w sys" where
  "recv_turn K as = (case recv_msg_turn K as of
     (Return (Inl e), as') \<Rightarrow> (Return (Inl e), as')
   | (Return (Inr (Data d info)), as') \<Rightarrow> (Return (Inr (d, info)), as')
   | (Return (Inr (RecvNotification _)), as') \<Rightarrow> (Again, as')
   | (Again, as') \<Rightarrow> (Again, as')
   | (Panicked, as') \<Rightarrow> (Panicked, as'))"

definition recv :: "('w, 'x) kernel_scheme \<Rightarrow> nat \<Rightarrow> SctpAssociation \<times> 'w sys \<Rightarrow>
    (SctpError + bytes \<times> RecvInfo) turn \<times> SctpAssociation \<times> 'w sys" where
  "recv K n = run_turns (recv_turn K) n"

section \<open>Addresses and the end of the association\<close>

definition peer_addrs :: "('w, 'x) kernel_scheme \<Rightarrow> SctpAssociation \<Rightarrow> (SctpError, SocketAddr list, 'w sys) prog" where
  "peer_addrs K a = addrs_via K (inner a) 0 True"

definition local_addrs :: "('w, 'x) kernel_scheme \<Rightarrow> SctpAssociation \<Rightarrow> (SctpError, SocketAddr list, 'w sys) prog" where
  "local_addrs K a = addrs_via K (inner a) 0 False"

definition shutdown :: "('w, 'x) kernel_scheme \<Rightarrow> SctpAssociation \<Rightarrow> (SctpError, unit, 'w sys) prog" where
  "shutdown K a = and_then (checked K (syscall (\<lambda>_. Call_shutdown (inner a) (SHUT_WR K))
     (k_shutdown K (inner a) (SHUT_WR K)))) (\<lambda>_. ok ())"

definition abort_association :: "('w, 'x) kernel_scheme \<Rightarrow> nat \<Rightarrow> SctpAssociation \<times> 'w sys \<Rightarrow>
    (SctpError + unit) turn \<times> SctpAssociation \<times> 'w sys" where
  "abort_association K n as = (case send_with K n [] 0 0 (default_SendOptions\<lparr>abort := True\<rparr>) as of
     (Return (Inl e), as') \<Rightarrow> (Return (Inl e), as')
   | (Return (Inr _), as') \<Rightarrow> (Return (Inr ()), as')
   | (Again, as') \<Rightarrow> (Again, as')
   | (Panicked, as') \<Rightarrow> (Panicked, as'))"

definition as_raw_fd :: "SctpAssociation \<Rightarrow> i32" where
  "as_raw_fd a = inner a"

text \<open>Dropping an association closes its descriptor.\<close>

definition drop_association :: "('w, 'x) kernel_scheme \<Rightarrow> SctpAssociation \<Rightarrow> 'w sys \<Rightarrow> 'w sys" where
  "drop_association K a = close_fd K (inner a)"

end
