(* ===== verification/Assoc_Recv.thy ===== *)
theory Assoc_Recv
  imports Association Receiver
begin

text \<open>
  The receive side of an association: every sequence of receives, whichever of them are dropped
  while they wait, hands out exactly the records of the chunks that the kernel delivered.
\<close>

section \<open>A turn feeds the accumulator\<close>

text \<open>What the association reports of a step of the accumulator.\<close>

fun step_result :: "Step \<Rightarrow> RecvResult option" where
  "step_result (StepNotification n) = Some (RecvNotification n)"
| "step_result (Complete d info addr) = Some (Data d info)"
| "step_result _ = None"

definition turn_chunks :: "('w, 'x) kernel_scheme \<Rightarrow> SctpAssociation \<times> 'w sys \<Rightarrow> chunk list" where
  "turn_chunks K = (\<lambda>(a, s). ready_chunks K (inner a) False s)"

definition recv_inv :: "('w, 'x) kernel_scheme \<Rightarrow> SctpAssociation \<times> 'w sys \<Rightarrow> bool" where
  "recv_inv K = (\<lambda>(a, s). recvmsg_ok K \<and> reassembly_inv (recv_state a))"

definition recv_acc :: "SctpAssociation \<times> 'w sys \<Rightarrow> bytes" where
  "recv_acc = (\<lambda>(a, s). buf (recv_state a))"

lemmas recv_contract_defs = turn_chunks_def recv_inv_def recv_acc_def

interpretation assoc_recv: receiver "recv_msg_turn K" "turn_chunks K" recv_acc "recv_inv K"
  "push_input (target_endian K)" step_result for K
proof
  fix as as' :: "SctpAssociation \<times> 'a sys" and t
  assume inv: "recv_inv K as" and turn: "recv_msg_turn K as = (t, as')"
  obtain a s where as: "as = (a, s)" by (cases as)
  obtain rd s1 where p: "poll_ready K (inner a) READABLE s = (rd, s1)" by fastforce
  obtain st r s2 where step: "recv_step K (inner a) False (recv_state a) s1 = (st, r, s2)" by (metis surj_pair)
  have ok: "recvmsg_ok K" "reassembly_inv (recv_state a)" using inv as by (simp_all add: recv_inv_def)
  show "t \<noteq> Panicked \<and> recv_inv K as' \<and> recv_acc as' = snd (feed (push_input (target_endian K)) (recv_acc as) (turn_chunks K as))
    \<and> List.map_filter turn_result [t] = List.map_filter step_result (fst (feed (push_input (target_endian K)) (recv_acc as) (turn_chunks K as)))"
  proof (cases "rd = Ready")
    case False
    with p turn ok as ready_chunks_not_ready [OF p False, of False] show ?thesis
      by (cases rd) (auto simp: recv_msg_turn_def recv_contract_defs map_filter_def)
  next
    case True
    from ok p [unfolded True] step show ?thesis
    proof (cases rule: ready_step_cases)
      case nothing
      with True p turn ok as step show ?thesis
        by (auto simp: recv_msg_turn_def recv_contract_defs map_filter_def Let_def split: if_splits)
    next
      case (chunk c)
      with True p turn ok as step show ?thesis
        by (cases "fst (push_input (target_endian K) (buf (recv_state a)) c)")
          (auto simp: recv_msg_turn_def recv_contract_defs feed_one map_filter_def Let_def
            simp del: feed.simps(2) split: if_splits)
    qed
  qed
qed

section \<open>A receive returns what is delivered\<close>

interpretation assoc_messages: message_reader "recv_turn K" recv_acc "recv_inv K"
  "\<lambda>(a, s). delivers K False (inner a) (kern s)" "target_endian K" "\<lambda>_. True" "\<lambda>(d, info, addr). (d, info)" for K
proof
  fix as :: "SctpAssociation \<times> 'a sys" and c cs
  obtain a s where as: "as = (a, s)" by (cases as)
  let ?e = "target_endian K" and ?b = "buf (recv_state a)"
  assume inv: "recv_inv K as" and off: "(\<lambda>(a, s). delivers K False (inner a) (kern s)) as (c # cs)"
  obtain st b' where push: "push_input ?e ?b c = (st, b')" by fastforce
  note cases = push_input_cases [OF push]
  obtain s1 r s' where d: "poll_ready K (inner a) READABLE s = (Ready, s1)" "delivers K False (inner a) (kern s') cs"
    "recv_step K (inner a) False (recv_state a) s1 = (Some st, r, s')" "buf r = b'" "reassembly_inv r"
    using delivers_step [of K "recv_state a" False "inner a" s c cs] inv off push by (auto simp: as recv_inv_def)
  have ok: "recvmsg_ok K" using inv by (simp add: as recv_inv_def)
  show "\<exists>as'. recv_turn K as = (Again, as') \<and> recv_inv K as' \<and> (\<lambda>(a, s). delivers K False (inner a) (kern s)) as' cs
      \<and> recv_acc as' = snd (push_input ?e (recv_acc as) c)" if "\<not> (is_data_chunk c \<and> is_last_chunk c)"
  proof (cases "is_data_chunk c")
    case True
    with that cases(2) have "st = More" by simp
    with d ok push show ?thesis
      by (auto simp: as recv_turn_def recv_msg_turn_def recv_inv_def recv_acc_def Let_def)
  next
    case False
    with cases(1) obtain n where "st = StepNotification n" by blast
    with d ok push show ?thesis
      by (auto simp: as recv_turn_def recv_msg_turn_def recv_inv_def recv_acc_def Let_def)
  qed
  show "\<exists>as'. recv_turn K as = (Return (Inr (case message_of ?e (recv_acc as @ fst c) c of (d, info, addr) \<Rightarrow> (d, info))), as')
      \<and> recv_inv K as' \<and> (\<lambda>(a, s). delivers K False (inner a) (kern s)) as' cs \<and> recv_acc as' = []"
    if "is_data_chunk c" "is_last_chunk c"
    using cases(3) [OF that] d ok by (cases c) (auto simp: as recv_turn_def recv_msg_turn_def recv_acc_def recv_inv_def Let_def)
qed

lemma recv_delivers:
  assumes "recvmsg_ok K" and "reassembly_inv (recv_state a)" and "delivers K False (inner a) (kern s) (cs @ rest)"
    and "is_record is_last_chunk (filter is_data_chunk cs)" and "is_data_chunk (last cs)"
  shows "\<exists>a' s'. recv K (length cs) (a, s) =
      (Return (Inr (buf (recv_state a) @ concat (map fst (filter is_data_chunk cs)),
                    fst (snd (message_of (target_endian K) [] (last cs))))), a', s')
      \<and> reassembly_inv (recv_state a') \<and> delivers K False (inner a') (kern s') rest \<and> buf (recv_state a') = []"
proof -
  obtain a' s' where "run_turns (recv_turn K) (length cs) (a, s) =
      (Return (Inr ((\<lambda>(d, info, addr). (d, info)) (message_of (target_endian K)
         (buf (recv_state a) @ concat (map fst (filter is_data_chunk cs))) (last cs)))), a', s')" "reassembly_inv (recv_state a')" "delivers K False (inner a') (kern s') rest"
      "buf (recv_state a') = []"
    using assoc_messages.run_returns [of K "(a, s)" cs rest] assms by (auto simp: recv_inv_def recv_acc_def)
  then show ?thesis by (cases "last cs") (auto simp: recv_def)
qed

section \<open>The end of the association\<close>

lemma ended_turn:
  assumes "recv_msg_turn K (a, s) = (t, a', s')"
  shows "ended a' \<longleftrightarrow> ended a \<or> (\<exists>n. t = Return (Inr (RecvNotification n)) \<and> ends n)"
proof -
  obtain rd s1 where p: "poll_ready K (inner a) READABLE s = (rd, s1)" by fastforce
  obtain st r s2 where st: "recv_step K (inner a) False (recv_state a) s1 = (st, r, s2)" by (metis surj_pair)
  show ?thesis
  proof (cases rd)
    case Ready
    with assms p st show ?thesis
      by (cases st; (cases "the st")?) (auto simp: recv_msg_turn_def Let_def split: if_splits)
  qed (use assms p in \<open>auto simp: recv_msg_turn_def Let_def\<close>)
qed

lemma ended_turn_returns:
  assumes "recvmsg_ok K" and "reassembly_inv (recv_state a)" and "ended a"
    and "recv_msg_turn K (a, s) = (t, a', s')" and "t = Again"
  shows "fst (k_ready K (inner a) READABLE (kern s)) = NotReady \<or> ready_chunks K (inner a) False s \<noteq> []"
proof -
  obtain rd s1 where p: "poll_ready K (inner a) READABLE s = (rd, s1)" by fastforce
  obtain st r s2 where step: "recv_step K (inner a) False (recv_state a) s1 = (st, r, s2)" by (metis surj_pair)
  show ?thesis
  proof (cases "rd = Ready")
    case True
    from assms(1,2) p [unfolded True] step show ?thesis
    proof (cases rule: ready_step_cases)
      case nothing
      with assms(3-5) p True step show ?thesis by (auto simp: recv_msg_turn_def Let_def)
    qed simp
  next
    case False
    with assms(4,5) p show ?thesis by (cases rd) (auto simp: recv_msg_turn_def poll_ready_sys)
  qed
qed

text \<open>The notifications that end an association.\<close>

lemma ends_iff: "ends n \<longleftrightarrow> (\<exists>c. n = AssocChange c \<and> state c \<in> {CommLost, ShutdownComp, CantStrAssoc})"
  by (cases n) (auto split: AssocChangeState.splits)

section \<open>Properties\<close>

text \<open>
  C6: receives are cancel-safe. Take any number of calls of \<open>recv_msg\<close>, each polled any number of
  times and dropped if it then still waits. The messages and notifications they return, in order,
  are exactly what the accumulator makes of the chunks the kernel delivered meanwhile, none of them
  lost or repeated; what is not complete yet is in the accumulator for the next call; no call panics.
\<close>

theorem recv_cancel_safe:
  assumes "recvmsg_ok K" and "reassembly_inv (recv_state a)"
    and "receives (recv_msg_turn K) ns (a, s) = (rs, a', s')"
  shows "\<exists>k ts cs. k \<le> sum_list ns \<and> session (recv_msg_turn K) (turn_chunks K) k (a, s) = (ts, cs, a', s')
    \<and> Panicked \<notin> set ts \<and> rs = List.map_filter returned ts
    \<and> List.map_filter ok_result rs
      = List.map_filter step_result (fst (feed (push_input (target_endian K)) (buf (recv_state a)) cs))
    \<and> buf (recv_state a') = snd (feed (push_input (target_endian K)) (buf (recv_state a)) cs)
    \<and> reassembly_inv (recv_state a')"
  using assoc_recv.receives_exact [of K "(a, s)" ns rs "(a', s')"] assms
  by (simp add: recv_inv_def recv_acc_def)

text \<open>
  \<open>recv\<close> returns. If the kernel delivers the parts of a message, with notifications anywhere
  between them, \<open>recv\<close> returns after as many polls the whole message: what the accumulator held,
  then the parts in order, with the stream, protocol identifier and association of the last part;
  the notifications are skipped and the accumulator is empty again.
\<close>

lemma recv_returns_message:
  assumes "recvmsg_ok K" and "reassembly_inv (recv_state a)" and "delivers K False (inner a) (kern s) cs"
    and "is_record is_last_chunk (filter is_data_chunk cs)" and "is_data_chunk (last cs)"
  shows "\<exists>a' s'. recv K (length cs) (a, s) =
      (Return (Inr (buf (recv_state a) @ concat (map fst (filter is_data_chunk cs)),
                    fst (snd (message_of (target_endian K) [] (last cs))))), a', s')
    \<and> buf (recv_state a') = []"
  using recv_delivers [of K a s cs "[]"] assms by auto

definition sample_queue :: "(bytes \<times> i32 \<times> SctpSndRcvInfo) list" where
  "sample_queue = [([170], 0, sample_sinfo), ([0, 0, 0, 0], MSG_NOTIFICATION, sample_sinfo), ([187, 188], MSG_EOR, sample_sinfo)]"

lemma sample_delivers:
  "delivers sample_kernel False 3 (kern (sample_sys sample_queue 0))
     [([170], 0, sample_sinfo, None), ([0, 0, 0, 0], MSG_NOTIFICATION, sample_sinfo, None), ([187, 188], MSG_EOR, sample_sinfo, None)]"
  by (simp add: sample_queue_def sample_defs RECV_WINDOW_def neg_def answer_chunk_def sender_of_def)

theorem recv_cancel_safe_witness:
  "\<exists>rs a' s'. receives (recv_msg_turn sample_kernel) [1, 1, 1] (new_association 3, sample_sys sample_queue 0) = (rs, a', s')
    \<and> reassembly_inv (recv_state a')"
proof -
  have inv: "reassembly_inv (recv_state (new_association 3))"
    by (simp add: new_association_def reassembly_inv_default)
  obtain rs a' s' where c: "receives (recv_msg_turn sample_kernel) [1, 1, 1] (new_association 3, sample_sys sample_queue 0) = (rs, a', s')"
    by (metis surj_pair)
  from recv_cancel_safe [OF sample_recvmsg_ok inv c] c show ?thesis by blast
qed

text \<open>
  C21: the end of the association is remembered, and only its end: a turn of a receive marks the
  association as ended exactly when it returns an association change whose state is lost, shut
  down or not set up (and not one that says it is up or restarted), and the mark is never taken back. On an ended association a
  receive that finds nothing queued does not go on waiting: a turn that does has either found the
  socket not readable or has taken a further part of a message.
\<close>

theorem association_end:
  assumes "recv_msg_turn K (a, s) = (t, a', s')"
  shows "(ended a' \<longleftrightarrow> ended a \<or> (\<exists>c. t = Return (Inr (RecvNotification (AssocChange c)))
        \<and> state c \<in> {CommLost, ShutdownComp, CantStrAssoc}))
    \<and> (recvmsg_ok K \<and> reassembly_inv (recv_state a) \<and> ended a \<and> t = Again \<longrightarrow>
         fst (k_ready K (inner a) READABLE (kern s)) = NotReady \<or> ready_chunks K (inner a) False s \<noteq> [])"
  using ended_turn [OF assms] ended_turn_returns [OF _ _ _ assms] by (auto simp: ends_iff)

lemma sample_change_lost:
  "parse_notification Little (assoc_change_bytes Little sample_change) = AssocChange \<lparr>state = CommLost, error = 12,
     outbound_streams = 30, inbound_streams = 16, ace_assoc_id = 42\<rparr>"
  using parse_assoc_change_bytes [of sample_change Little "[]"]
  by (simp add: sample_change_def state_from_u16_def SCTP_COMM_LOST_def SCTP_COMM_UP_def)

theorem association_end_witness:
  "\<exists>t a' s'. recv_msg_turn sample_kernel (new_association 3, sample_sys [(assoc_change_bytes Little sample_change,
      MSG_NOTIFICATION, sample_sinfo)] 0) = (t, a', s') \<and> ended a'"
proof -
  let ?n = "assoc_change_bytes Little sample_change"
  let ?s = "sample_sys [(?n, MSG_NOTIFICATION, sample_sinfo)] 0"
  let ?c = "(?n, MSG_NOTIFICATION, sample_sinfo, None) :: chunk"
  let ?a = "new_association 3"
  have len: "length ?n = 20" by (simp add: assoc_change_bytes_def)
  have inv: "reassembly_inv (recv_state ?a)" and fd: "inner ?a = 3" and e: "\<not> ended ?a"
    by (simp_all add: new_association_def reassembly_inv_default)
  have del: "delivers sample_kernel False (inner ?a) (kern ?s) [?c]"
    using len by (simp add: fd sample_defs RECV_WINDOW_def neg_def answer_chunk_def sender_of_def)
  obtain t a' s' where turn: "recv_msg_turn sample_kernel (?a, ?s) = (t, a', s')" by (metis surj_pair)
  have push: "fst (push_input Little b ?c) = StepNotification (parse_notification Little ?n)" for b
    by (simp add: push_chunk_def MSG_NOTIFICATION_def)
  have "t = Return (Inr (RecvNotification (parse_notification Little ?n)))"
    using delivers_step [OF sample_recvmsg_ok inv del] turn push
    by (auto simp: recv_msg_turn_def Let_def split: prod.splits readiness.splits)
  with association_end [OF turn] sample_change_lost e turn show ?thesis by auto
qed

end
