(* ===== verification/Assoc_Send.thy ===== *)
theory Assoc_Send
  imports Association
begin

text \<open>
  The send side of an association: a message is handed to the kernel whole and once or not at all,
  with the flags, the stream and the protocol identifier its caller gave, and a send that waits does
  so at its await point.
\<close>

unbundle bit_operations_syntax

section \<open>The turn\<close>

text \<open>The message as the kernel takes it.\<close>

definition sendmsg_entry :: "endian \<Rightarrow> bytes \<Rightarrow> u16 \<Rightarrow> u32 \<Rightarrow> SendOptions \<Rightarrow> i32 \<Rightarrow> usize \<Rightarrow> call" where
  "sendmsg_entry e data sid pp opts fd n =
     Call_sendmsg fd data (to_be e 4 pp) (opts_sinfo_flags opts) sid (ttl_ms opts) 0 (ucast n)"

lemma send_with_turn_cases:
  assumes "send_with_turn K data sid pp opts (a, s) = (t, a', s')"
  obtains (poll_failed) e where "t = Return (Inl (Io e))" "a' = a" "trace s' = trace s @ [Call_ready (inner a) WRITABLE_OR_ERROR]"
  | (over) "t = Return (Inl NotConnected)" "a' = a" "ended a" "trace s' = trace s @ [Call_ready (inner a) WRITABLE_OR_ERROR]"
  | (waits) "t = Again" "a' = a" "\<not> ended a" "trace s' = trace s @ [Call_ready (inner a) WRITABLE_OR_ERROR]"
  | (full) n where "t = Again" "a' = a" "neg (ucast n)"
      "trace s' = trace s @ [Call_ready (inner a) WRITABLE_OR_ERROR, sendmsg_entry (target_endian K) data sid pp opts (inner a) n,
         Call_clear_ready (inner a) WRITABLE_OR_ERROR]"
  | (failed) n e where "t = Return (Inl (Io e))" "a' = a" "neg (ucast n)"
      "trace s' = trace s @ [Call_ready (inner a) WRITABLE_OR_ERROR, sendmsg_entry (target_endian K) data sid pp opts (inner a) n]"
  | (sent) n where "t = Return (Inr n)" "a' = a" "\<not> neg (ucast n)"
      "trace s' = trace s @ [Call_ready (inner a) WRITABLE_OR_ERROR, sendmsg_entry (target_endian K) data sid pp opts (inner a) n]"
proof -
  obtain rd s1 where p: "poll_ready K (inner a) WRITABLE_OR_ERROR s = (rd, s1)" by fastforce
  then have t1: "trace s1 = trace s @ [Call_ready (inner a) WRITABLE_OR_ERROR]"
    by (auto simp: poll_ready_def syscall_def split: prod.splits)
  show ?thesis
  proof (cases rd)
    case Ready
    let ?args = "\<lambda>f. f (inner a) data (to_be (target_endian K) 4 pp) (opts_sinfo_flags opts) sid (ttl_ms opts) 0"
    obtain ret s2 where c: "syscall (?args Call_sendmsg) (?args (k_sendmsg K)) s1 = (ret, s2)" by fastforce
    then have t2: "trace s2 = trace s1 @ [sendmsg_entry (target_endian K) data sid pp opts (inner a) (scast ret)]"
      by (auto simp: syscall_def sendmsg_entry_def split: prod.splits)
    have r: "(ucast (scast ret :: usize) :: i32) = ret" by simp
    show ?thesis
      using assms p Ready c t1 t2 full [of "scast ret"] failed [of _ "scast ret"] sent [of "scast ret"] r
      by (auto simp: send_with_turn_def Let_def clear_ready_def split: if_splits)
  qed (use assms p t1 poll_failed over waits in \<open>auto simp: send_with_turn_def Let_def split: if_splits\<close>)
qed

text \<open>The send of an association keeps the contract.\<close>

definition accepted_by :: "SctpAssociation \<times> 'w sys \<Rightarrow> call list" where
  "accepted_by as = filter taken (trace (snd as))"

lemma taken_entry: "taken (sendmsg_entry e data sid pp opts fd n) \<longleftrightarrow> \<not> neg (ucast n)"
  by (simp add: sendmsg_entry_def)

interpretation assoc_send: send_loop "send_with_turn K data sid pp opts" fst accepted_by
  "\<lambda>a. sendmsg_entry (target_endian K) data sid pp opts (inner a)" for K data sid pp opts
proof
  fix as as' :: "SctpAssociation \<times> 'a sys"
  obtain a s where as: "as = (a, s)" by (cases as)
  obtain a' s' where as': "as' = (a', s')" by (cases as')
  obtain t b u where turn: "send_with_turn K data sid pp opts as = (t, b, u)" by (metis surj_pair)
  note turn' = turn [unfolded as]
  note c = send_with_turn_cases [OF turn']
  show "fst (send_with_turn K data sid pp opts as) \<noteq> Panicked"
    by (rule c) (simp_all add: turn)
  show "fst (snd (send_with_turn K data sid pp opts as)) = fst as"
    by (rule c) (simp_all add: as turn')
  show "send_with_turn K data sid pp opts as = (Again, as') \<Longrightarrow> accepted_by as' = accepted_by as"
    by (rule c) (auto simp: as as' turn' accepted_by_def taken_entry)
  show "send_with_turn K data sid pp opts as = (Return (Inl e), as') \<Longrightarrow> accepted_by as' = accepted_by as" for e
    by (rule c) (auto simp: as as' turn' accepted_by_def taken_entry)
  show "send_with_turn K data sid pp opts as = (Return (Inr n), as') \<Longrightarrow> accepted_by as' =
      accepted_by as @ [sendmsg_entry (target_endian K) data sid pp opts (inner (fst as)) n]" for n
    by (rule c) (auto simp: as as' turn' accepted_by_def taken_entry)
qed

section \<open>The flags\<close>

lemma opts_sinfo_flags_bit:
  "bit (opts_sinfo_flags opts) j \<longleftrightarrow> (j = 0 \<and> unordered opts) \<or> (j = 2 \<and> abort opts) \<or> (j = 9 \<and> eof opts)"
proof -
  have c: "SCTP_UNORDERED = push_bit 0 1" "SCTP_ABORT = push_bit 2 1" "SCTP_EOF = push_bit 9 1"
    by (simp_all add: SCTP_UNORDERED_def SCTP_ABORT_def SCTP_EOF_def)
  have m: "k < 32 \<Longrightarrow> bit (push_bit k 1 :: u32) j \<longleftrightarrow> j = k" for k
    by (auto simp: bit_exp_iff)
  have "bit SCTP_UNORDERED j \<longleftrightarrow> j = 0" "bit SCTP_ABORT j \<longleftrightarrow> j = 2" "bit SCTP_EOF j \<longleftrightarrow> j = 9"
    unfolding c by (rule m; simp)+
  then show ?thesis
    by (auto simp: opts_sinfo_flags_def bit_or_iff)
qed

lemma opts_sinfo_flags_u16: "ucast (ucast (opts_sinfo_flags opts) :: u16) = opts_sinfo_flags opts"
  by (rule bit_word_eqI) (auto simp: bit_unsigned_iff opts_sinfo_flags_bit)

section \<open>The protocol identifier\<close>

text \<open>The identifier that a receiver reads from the bytes a sender of any byte order wrote.\<close>

lemma ppid_from_wire:
  assumes "ne_bytes e (4 :: nat) (sinfo_ppid sinfo) = ne_bytes e1 4 (to_be e1 4 pp)"
  shows "from_be e 4 (sinfo_ppid sinfo) = pp"
proof -
  have "ne_bytes e1 4 (to_be e1 4 pp) = ne_bytes e 4 (to_be e 4 pp)" by (subst (1 2) ne_bytes_to_be) simp_all
  with assms have "sinfo_ppid sinfo = to_be e 4 pp" by (simp only: u32_ne.enc_inject)
  then show ?thesis by (simp add: from_be_to_be)
qed

section \<open>Properties\<close>

text \<open>
  C8: a message is sent whole and once, or not at all. However often \<open>send_with\<close> is polled and
  whatever the kernel answers, it does not panic, and the messages the kernel has taken on its account
  are: exactly one when it returns a length, and that one is the caller's data with the caller's
  stream, flags and lifetime and the protocol identifier in network order; none when it returns an
  error or still waits, so that a send dropped while it waits has sent nothing.
\<close>

theorem send_exactly_once:
  assumes "send_with K n data sid pp opts (a, s) = (r, a', s')"
  shows "r \<noteq> Panicked \<and> a' = a \<and> filter taken (trace s') = filter taken (trace s) @ (case r of
     Return (Inr m) \<Rightarrow> [Call_sendmsg (inner a) data (to_be (target_endian K) 4 pp) (opts_sinfo_flags opts)
        sid (ttl_ms opts) 0 (ucast m)]
   | _ \<Rightarrow> [])"
  using assoc_send.run_accepted [OF assms [unfolded send_with_def]]
  by (auto simp: accepted_by_def sendmsg_entry_def split: turn.splits sum.splits)

theorem send_exactly_once_witness:
  "\<exists>s'. send_with sample_kernel 2 [1, 2, 3] 5 46 default_SendOptions (new_association 3, sample_sys [] 1) =
      (Return (Inr 3), new_association 3, s')
    \<and> filter taken (trace s') = [Call_sendmsg 3 [1, 2, 3] (to_be Little 4 46) 0 5 0 0 3]"
proof -
  obtain r a' s' where c: "send_with sample_kernel 2 [1, 2, 3] 5 46 default_SendOptions
      (new_association 3, sample_sys [] 1) = (r, a', s')" by (metis surj_pair)
  have r: "r = Return (Inr 3)"
    using c by (simp add: send_with_def send_with_turn_def poll_ready_def syscall_def sample_defs
        new_association_def neg_def numeral_2_eq_2)
  from send_exactly_once [OF c] c r show ?thesis
    by (simp add: sample_sys_def new_association_def opts_sinfo_flags_def default_SendOptions_def)
qed

text \<open>
  C25: a send waits only at its await point and never spins. If \<open>send_with\<close> still waits after \<open>n\<close>
  polls, then at each of them it either found the socket not ready, on an association that has not
  ended, or the kernel refused the message and the readiness was cleared before the next poll.
\<close>

theorem send_waits:
  assumes "send_with K n data sid pp opts (a, s) = (Again, a', s')"
  shows "\<exists>bs. length bs = n \<and> trace s' = trace s @ concat bs \<and> (\<forall>b \<in> set bs.
     b = [Call_ready (inner a) WRITABLE_OR_ERROR] \<and> \<not> ended a \<or>
     (\<exists>ret. neg ret \<and> b = [Call_ready (inner a) WRITABLE_OR_ERROR,
        Call_sendmsg (inner a) data (to_be (target_endian K) 4 pp) (opts_sinfo_flags opts) sid (ttl_ms opts) 0 ret,
        Call_clear_ready (inner a) WRITABLE_OR_ERROR]))"
proof -
  let ?Q = "\<lambda>b. b = [Call_ready (inner a) WRITABLE_OR_ERROR] \<and> \<not> ended a \<or>
     (\<exists>ret. neg ret \<and> b = [Call_ready (inner a) WRITABLE_OR_ERROR,
        Call_sendmsg (inner a) data (to_be (target_endian K) 4 pp) (opts_sinfo_flags opts) sid (ttl_ms opts) 0 ret,
        Call_clear_ready (inner a) WRITABLE_OR_ERROR])"
  have step: "fst as' = a \<and> (\<exists>b. trace (snd as') = trace (snd as) @ b \<and> ?Q b)"
    if fst: "fst as = a" and turn: "send_with_turn K data sid pp opts as = (Again, as')" for as as'
  proof -
    obtain u where as: "as = (a, u)" using fst by (cases as) auto
    obtain b v where as': "as' = (b, v)" by (cases as')
    show ?thesis
      using turn unfolding as as'
      by (cases rule: send_with_turn_cases) (auto simp: sendmsg_entry_def)
  qed
  show ?thesis
    using run_turns_again_blocks [where P = "\<lambda>as. fst as = a" and log = "\<lambda>as. trace (snd as)" and Q = ?Q,
        OF step _ assms [unfolded send_with_def]]
    by simp
qed

theorem send_waits_witness:
  "\<exists>s'. send_with sample_kernel 2 [1] 0 0 default_SendOptions (new_association 3, sample_sys [] 0) =
      (Again, new_association 3, s')
    \<and> (\<exists>bs. length bs = 2 \<and> trace s' = concat bs)"
proof -
  obtain s' where c: "send_with sample_kernel 2 [1] 0 0 default_SendOptions
      (new_association 3, sample_sys [] 0) = (Again, new_association 3, s')"
    by (simp add: send_with_def send_with_turn_def poll_ready_def syscall_def sample_defs
        new_association_def numeral_2_eq_2)
  from send_waits [OF c] c show ?thesis by (auto simp: sample_sys_def)
qed

text \<open>
  A sender that waits on an association that has ended is released: its next poll returns, with
  \<open>NotConnected\<close> when the socket is not ready, whether or not it ever becomes writable again. Only a
  socket that is ready and refuses the message for lack of room keeps it waiting.
\<close>

lemma send_released_by_end:
  assumes "ended a" and "fst (k_ready K (inner a) WRITABLE_OR_ERROR (kern s)) = NotReady"
  shows "\<exists>s'. send_with K (Suc n) data sid pp opts (a, s) = (Return (Inl NotConnected), a, s')"
  using assms by (auto simp: send_with_def send_with_turn_def poll_ready_def syscall_def Let_def split: prod.splits)

text \<open>
  The flags of a send: bit 0 says unordered, bit 2 abort and bit 9 end of transmission, each set
  exactly when its option is, and nothing else; so the conversion to \<open>u16\<close> that the server makes of
  them loses nothing.
\<close>

lemma sinfo_flags_exact:
  "(bit (opts_sinfo_flags opts) i \<longleftrightarrow> (i = 0 \<and> unordered opts) \<or> (i = 2 \<and> abort opts) \<or> (i = 9 \<and> eof opts))
   \<and> ucast (ucast (opts_sinfo_flags opts) :: u16) = opts_sinfo_flags opts"
  using opts_sinfo_flags_bit opts_sinfo_flags_u16 by blast

text \<open>
  The protocol identifier survives the wire between hosts of any two byte orders. What
  \<open>send_with\<close> hands to the kernel has the big-endian bytes of the caller's identifier in memory, and
  a receiver whose ancillary data holds these bytes reports the identifier the sender gave.
\<close>

lemma ppid_survives_the_wire:
  assumes "send_with K n data sid pp opts (a, s) = (Return (Inr m), a', s')"
    and "flags AND MSG_NOTIFICATION = 0" and "flags AND MSG_EOR \<noteq> 0"
  shows "\<exists>wire fl st ttl. filter taken (trace s') = filter taken (trace s) @ [Call_sendmsg (inner a) data wire fl st ttl 0 (ucast m)]
    \<and> ne_bytes (target_endian K) 4 wire = be_bytes 4 pp
    \<and> (\<forall>e b (sinfo :: SctpSndRcvInfo) addr. ne_bytes e 4 (sinfo_ppid sinfo) = ne_bytes (target_endian K) 4 wire \<longrightarrow>
         (\<exists>info. push_chunk e b data flags sinfo addr = (Complete (b @ data) info addr, []) \<and> ppid info = pp))"
proof (intro exI conjI allI impI)
  show "filter taken (trace s') = filter taken (trace s) @ [Call_sendmsg (inner a) data (to_be (target_endian K) 4 pp)
      (opts_sinfo_flags opts) sid (ttl_ms opts) 0 (ucast m)]"
    using assoc_send.run_accepted [OF assms(1) [unfolded send_with_def]]
    by (simp add: accepted_by_def sendmsg_entry_def)
  show "ne_bytes (target_endian K) 4 (to_be (target_endian K) 4 pp) = be_bytes 4 pp"
    by (rule ne_bytes_to_be) simp
  fix e b addr and sinfo :: SctpSndRcvInfo
  assume "ne_bytes e 4 (sinfo_ppid sinfo) = ne_bytes (target_endian K) 4 (to_be (target_endian K) 4 pp)"
  then have "from_be e 4 (sinfo_ppid sinfo) = pp" by (rule ppid_from_wire)
  then show "push_chunk e b data flags sinfo addr = (Complete (b @ data)
      \<lparr>stream = sinfo_stream sinfo, ppid = from_be e 4 (sinfo_ppid sinfo), assoc_id = sinfo_assoc_id sinfo\<rparr> addr, [])"
    "ppid \<lparr>stream = sinfo_stream sinfo, ppid = from_be e 4 (sinfo_ppid sinfo), assoc_id = sinfo_assoc_id sinfo\<rparr> = pp"
    using assms(2,3) by (simp_all add: push_chunk_def)
qed

text \<open>
  \<open>abort\<close> hands the kernel one empty message whose only flag is the abort flag when it succeeds,
  and nothing when it fails or still waits.
\<close>

lemma abort_sends_abort:
  assumes "abort_association K n (a, s) = (r, a', s')"
  shows "\<exists>m. r \<noteq> Panicked \<and> a' = a \<and> filter taken (trace s') = filter taken (trace s) @ (case r of
     Return (Inr _) \<Rightarrow> [Call_sendmsg (inner a) [] 0 SCTP_ABORT 0 0 0 m]
   | _ \<Rightarrow> [])"
proof -
  let ?o = "default_SendOptions\<lparr>abort := True\<rparr>"
  have o: "opts_sinfo_flags ?o = SCTP_ABORT" "ttl_ms ?o = 0"
    by (simp_all add: opts_sinfo_flags_def default_SendOptions_def)
  obtain r1 a1 s1 where c: "send_with K n [] 0 0 ?o (a, s) = (r1, a1, s1)" by (metis surj_pair)
  have r: "a' = a1" "s' = s1" "r = (case r1 of Return (Inl e) \<Rightarrow> Return (Inl e) | Return (Inr m) \<Rightarrow> Return (Inr ())
      | Again \<Rightarrow> Again | Panicked \<Rightarrow> Panicked)"
    using assms c by (cases r1 rule: turn.exhaust; auto simp: abort_association_def split: sum.splits)+
  from assoc_send.run_accepted [OF c [unfolded send_with_def]] show ?thesis
    unfolding r by (cases r1) (auto simp: accepted_by_def sendmsg_entry_def o to_be_0 split: sum.splits)
qed

end
