(* ===== verification/Assoc_Connect.thy ===== *)
theory Assoc_Connect
  imports Association
begin

text \<open>
  Setting up an association: the calls a connect makes and their order, its refusals, and that the
  descriptor it opens is closed exactly once unless it is handed to the caller.
\<close>

section \<open>Descriptors\<close>

lemma quiet_connect_socket_setup [quiet_intros]: "quiet (connect_socket_setup K domain fd local config)"
  unfolding connect_socket_setup_def by (intro quiet_intros)

lemma quiet_connectx [quiet_intros]: "quiet (connectx K fd addrs)"
  by (rule quietI) (auto simp: connectx_def syscall_def Let_def split: prod.splits)

text \<open>What follows the socket call of a connect, with the descriptor it got.\<close>

definition connect_rest :: "('w, 'x) kernel_scheme \<Rightarrow> i32 \<Rightarrow> i32 \<Rightarrow> SocketAddr list \<Rightarrow> SocketAddr list \<Rightarrow> SctpConfig \<Rightarrow>
    (SctpError, i32, 'w sys) prog" where
  "connect_rest K domain fd local addrs config =
     and_then (owning K fd (connect_socket_setup K domain fd local config)) (\<lambda>_.
     and_then (register K fd) (\<lambda>_.
     and_then (owning K fd (connectx K fd addrs)) (\<lambda>_.
     ok fd)))"

definition connect_domain :: "('w, 'x) kernel_scheme \<Rightarrow> SocketAddr list \<Rightarrow> SocketAddr list \<Rightarrow> i32" where
  "connect_domain K local addrs = (if list_ex is_ipv6 (addrs @ local) then AF_INET6 K else AF_INET K)"

lemma connect_start_rest:
  "connect_start K local addrs config =
     (if addrs = [] then err (Io (Custom InvalidInput ''no connect addresses''))
      else if ports_differ local then err (InvalidAddress ''the local addresses of one endpoint share one port'')
      else and_then (checked K (syscall (Call_socket (connect_domain K local addrs) (SOCK_STREAM K) IPPROTO_SCTP)
          (k_socket K (connect_domain K local addrs) (SOCK_STREAM K) IPPROTO_SCTP)))
        (\<lambda>fd. connect_rest K (connect_domain K local addrs) fd local addrs config))"
  by (simp add: connect_start_def connect_rest_def connect_domain_def Let_def)

lemma connect_rest_balance:
  assumes "connect_rest K domain fd local addrs config s = (r, s')"
  shows "balance d (trace s') = balance d (trace s) - (case r of Inl _ \<Rightarrow> if d = fd then 1 else 0 | Inr _ \<Rightarrow> 0)
    \<and> (\<forall>x. r = Inr x \<longrightarrow> x = fd)"
  using assms unfolding connect_rest_def
proof (cases rule: and_then_cases)
  case (fails e)
  with owning_quiet_balance [OF quiet_connect_socket_setup fails(1), of d] show ?thesis by simp
next
  case (goes_on u s1)
  note b1 = owning_quiet_balance [OF quiet_connect_socket_setup goes_on(1), of d]
  from goes_on(2) show ?thesis
  proof (cases rule: and_then_cases)
    case (fails e)
    with b1 register_balance [OF fails(1), of d] show ?thesis by simp
  next
    case (goes_on v s2)
    note b2 = register_balance [OF goes_on(1), of d]
    from goes_on(2) show ?thesis
    proof (cases rule: and_then_cases)
      case (fails e)
      with b1 b2 owning_quiet_balance [OF quiet_connectx fails(1), of d] show ?thesis by simp
    next
      case (goes_on x s3)
      with b1 b2 owning_quiet_balance [OF quiet_connectx goes_on(1), of d] show ?thesis
        by (auto simp: prog_apply)
    qed
  qed
qed

lemma connect_start_balance:
  assumes "connect_start K local addrs config s = (r, s')"
  shows "balance d (trace s') = balance d (trace s) + (case r of Inl _ \<Rightarrow> 0 | Inr fd \<Rightarrow> if d = fd then 1 else 0)"
proof (cases "addrs = [] \<or> ports_differ local")
  case True
  with assms show ?thesis by (auto simp: connect_start_def err_def split: if_splits)
next
  case False
  with assms have "and_then (checked K (syscall (Call_socket (connect_domain K local addrs) (SOCK_STREAM K) IPPROTO_SCTP)
          (k_socket K (connect_domain K local addrs) (SOCK_STREAM K) IPPROTO_SCTP)))
        (\<lambda>fd. connect_rest K (connect_domain K local addrs) fd local addrs config) s = (r, s')"
    by (simp add: connect_start_rest)
  then show ?thesis
  proof (cases rule: and_then_cases)
    case (fails e)
    with socket_balance [OF fails(1), of d] show ?thesis by simp
  next
    case (goes_on fd s1)
    with socket_balance [OF goes_on(1), of d] connect_rest_balance [OF goes_on(2), of d] show ?thesis
      by (cases r) auto
  qed
qed

interpretation connecting: fd_constructor "connect_start K local addrs config" id "\<lambda>_ _. 0" for K local addrs config
  by unfold_locales (simp_all add: connect_start_balance)

subsection \<open>Waiting for the outcome\<close>

lemma finish_connect_trace: "trace (snd (snd (finish_connect both c s))) = trace s"
  by (cases c) simp_all

lemma finish_connect_no_panic: "fst (finish_connect both c s) \<noteq> Panicked"
  by (cases c) simp_all

lemma established_turn_balance:
  "balance d (trace (snd (snd (established_turn K fd (both, s))))) = balance d (trace s)
   \<and> fst (established_turn K fd (both, s)) \<noteq> Panicked"
proof -
  obtain rd s1 where p: "poll_ready K fd WRITABLE s = (rd, s1)" by fastforce
  obtain rd2 s2 where p2: "poll_ready K fd READABLE s1 = (rd2, s2)" by fastforce
  obtain oc s3 where o: "outcome K fd s1 = (oc, s3)" by fastforce
  obtain oc2 s4 where o2: "outcome K fd s2 = (oc2, s4)" by fastforce
  note b = quiet_balance' [OF quiet_poll_ready p, of d] quiet_balance' [OF quiet_poll_ready p2, of d]
    quiet_balance' [OF quiet_outcome o, of d] quiet_balance' [OF quiet_outcome o2, of d]
  show ?thesis
    by (cases rd; cases rd2; cases oc; cases oc2)
      (simp_all add: established_turn_def p p2 o o2 b finish_connect_trace finish_connect_no_panic balance_Cons)
qed

lemma established_balance:
  assumes "established K fd n s = (r, both, s')"
  shows "balance d (trace s') = balance d (trace s) \<and> r \<noteq> Panicked"
proof -
  have "balance d (trace (snd (snd (run_turns (established_turn K fd) n (True, s))))) = balance d (trace s)"
    by (rule run_turns_invariant [where P = "\<lambda>x. balance d (trace (snd x)) = balance d (trace s)"])
      (simp_all add: established_turn_balance split_paired_all)
  moreover have "fst (run_turns (established_turn K fd) n (True, s)) \<noteq> Panicked"
    by (rule run_turns_no_panic [where P = "\<lambda>_. True"]) (simp_all add: established_turn_balance split_paired_all)
  ultimately show ?thesis using assms by (simp add: established_def)
qed

section \<open>The calls of a connect\<close>

lemma emits_connectx [emits_intros]:
  "emits (connectx K fd addrs) {[Call_connectx fd (pack K addrs) (word_of_nat (length addrs))]}"
  by (rule emitsI) (auto simp: connectx_def syscall_def Let_def split: prod.splits if_splits)

lemma emits_connect_rest:
  "emits (connect_rest K domain fd local addrs config)
     (followed_by (followed_by (range (nonblocking_calls K fd)) {v6_calls K domain fd @ option_calls K config fd @ events_call fd #
        (if local \<noteq> [] then reuse_call K fd # bind_calls K fd local else [])})
      {[Call_register fd, Call_connectx fd (pack K addrs) (word_of_nat (length addrs))]})"
proof -
  have "emits (connect_socket_setup K domain fd local config)
     (followed_by (range (nonblocking_calls K fd)) (followed_by {v6_calls K domain fd}
       (followed_by {option_calls K config fd} (followed_by {[events_call fd]}
        {if local \<noteq> [] then reuse_call K fd # bind_calls K fd local else []}))))"
    unfolding connect_socket_setup_def option_calls_def
    by (intro emits_and_then emits_set_nonblocking emits_set_v6only emits_config_apply emits_configure_events
        emits_bind_local)
  then have st: "emits (connect_socket_setup K domain fd local config)
     (followed_by (range (nonblocking_calls K fd)) {v6_calls K domain fd @ option_calls K config fd @ events_call fd #
        (if local \<noteq> [] then reuse_call K fd # bind_calls K fd local else [])})"
    by simp
  have "emits (and_then (register K fd) (\<lambda>_. and_then (owning K fd (connectx K fd addrs)) (\<lambda>_. ok fd)))
     (followed_by {[Call_register fd]} (followed_by {[Call_connectx fd (pack K addrs) (word_of_nat (length addrs))]} {[]}))"
    by (intro emits_intros)
  then have "emits (and_then (register K fd) (\<lambda>_. and_then (owning K fd (connectx K fd addrs)) (\<lambda>_. ok fd)))
     {[Call_register fd, Call_connectx fd (pack K addrs) (word_of_nat (length addrs))]}"
    by simp
  with st show ?thesis
    unfolding connect_rest_def by (intro emits_and_then emits_owning)
qed

lemma connect_start_Inr:
  assumes "connect_start K local addrs config s = (Inr fd, s')"
  shows "addrs \<noteq> [] \<and> \<not> ports_differ local \<and> (\<exists>flags. trace s' = trace s @
      Call_socket (connect_domain K local addrs) (SOCK_STREAM K) IPPROTO_SCTP fd # nonblocking_calls K fd flags
      @ v6_calls K (connect_domain K local addrs) fd @ option_calls K config fd @ [events_call fd]
      @ (if local \<noteq> [] then reuse_call K fd # bind_calls K fd local else [])
      @ [Call_register fd, Call_connectx fd (pack K addrs) (word_of_nat (length addrs))])"
proof -
  have valid: "addrs \<noteq> []" "\<not> ports_differ local"
    using assms by (auto simp: connect_start_def err_def split: if_splits)
  then have "and_then (checked K (syscall (Call_socket (connect_domain K local addrs) (SOCK_STREAM K) IPPROTO_SCTP)
          (k_socket K (connect_domain K local addrs) (SOCK_STREAM K) IPPROTO_SCTP)))
        (\<lambda>fd. connect_rest K (connect_domain K local addrs) fd local addrs config) s = (Inr fd, s')"
    using assms by (simp add: connect_start_rest)
  then show ?thesis
  proof (cases rule: and_then_cases)
    case (goes_on d s1)
    with connect_rest_balance [OF goes_on(2)] have d: "d = fd" by auto
    have "trace s1 = trace s @ [Call_socket (connect_domain K local addrs) (SOCK_STREAM K) IPPROTO_SCTP d]"
      using goes_on(1) by (auto simp: checked_def check_ret_def syscall_def split: prod.splits if_splits)
    with emitsD [OF emits_connect_rest goes_on(2)] valid d show ?thesis
      by (auto simp: followed_by_def)
  qed simp
qed

section \<open>Taking over a descriptor\<close>

text \<open>
  The setup of a descriptor that \<open>from_raw_fd\<close> is given: nobody owns it until the registration, so an
  error before that leaves it as it was, and an error of the registration has closed it.
\<close>

lemma from_raw_fd_cases:
  assumes "from_raw_fd K fd s = (r, s')"
  obtains (made) "r = Inr (new_association fd)" "\<And>d. balance d (trace s') = balance d (trace s)"
  | (not_set_up) e where "r = Inl e" "\<And>d. balance d (trace s') = balance d (trace s)"
      "and_then (set_nonblocking K fd) (\<lambda>_. configure_events K fd) s = (Inl e, s')"
  | (not_registered) e where "r = Inl e" "\<And>d. balance d (trace s') = balance d (trace s) - (if d = fd then 1 else 0)"
proof -
  let ?m = "and_then (set_nonblocking K fd) (\<lambda>_. configure_events K fd)"
  have q: "quiet ?m" by (intro quiet_intros)
  have "and_then ?m (\<lambda>_. and_then (register K fd) (\<lambda>_. ok (new_association fd))) s = (r, s')"
    using assms by (simp add: from_raw_fd_def and_then_assoc)
  then show ?thesis
  proof (cases rule: and_then_cases)
    case (fails e)
    with quiet_balance' [OF q fails(1)] show ?thesis by (intro not_set_up)
  next
    case (goes_on u s1)
    note b = quiet_balance' [OF q goes_on(1)]
    from goes_on(2) show ?thesis
    proof (cases rule: and_then_cases)
      case (fails e)
      with b register_balance [OF fails(1)] show ?thesis by (intro not_registered) simp_all
    next
      case (goes_on v s2)
      with b register_balance [OF goes_on(1)] show ?thesis by (intro made) (simp_all add: prog_apply)
    qed
  qed
qed

text \<open>The same by what the kernel answers.\<close>

lemma from_raw_fd_exact:
  assumes "from_raw_fd K fd s = (r, s')"
  obtains (not_set_up) e where "and_then (set_nonblocking K fd) (\<lambda>_. configure_events K fd) s = (Inl e, s')" "r = Inl e"
      "\<And>d. balance d (trace s') = balance d (trace s)"
  | (not_registered) e s2 where "and_then (set_nonblocking K fd) (\<lambda>_. configure_events K fd) s = (Inr (), s2)"
      "fst (k_register K fd (kern s2)) = Inl e" "r = Inl (Io e)"
      "\<And>d. balance d (trace s') = balance d (trace s) - (if d = fd then 1 else 0)"
  | (made) s2 where "and_then (set_nonblocking K fd) (\<lambda>_. configure_events K fd) s = (Inr (), s2)"
      "fst (k_register K fd (kern s2)) = Inr ()" "r = Inr (new_association fd)"
      "\<And>d. balance d (trace s') = balance d (trace s)"
proof -
  let ?m = "and_then (set_nonblocking K fd) (\<lambda>_. configure_events K fd)"
  have q: "quiet ?m" by (intro quiet_intros)
  have m: "and_then ?m (\<lambda>_. and_then (register K fd) (\<lambda>_. ok (new_association fd))) s = (r, s')"
    using assms by (simp add: from_raw_fd_def and_then_assoc)
  then show ?thesis
  proof (cases rule: and_then_cases)
    case (fails e)
    with quiet_balance' [OF q fails(1)] show ?thesis by (intro not_set_up)
  next
    case (goes_on u s2)
    note b = quiet_balance' [OF q goes_on(1)]
    obtain rr w where k: "k_register K fd (kern s2) = (rr, w)" by fastforce
    show ?thesis
    proof (cases rr)
      case (Inl e)
      with goes_on b k not_registered [of s2 e] show ?thesis
        by (auto simp: and_then_def register_def syscall_def balance_Cons)
    next
      case (Inr x)
      with goes_on b k made [of s2] show ?thesis
        by (auto simp: and_then_def register_def syscall_def balance_Cons prog_apply)
    qed
  qed
qed

section \<open>The descriptors of a connect\<close>

lemma connect_bound_balance:
  assumes "connect_bound K n local addrs config s = (r, s')"
  shows "case r of
      Return (Inl e) \<Rightarrow> \<forall>d. balance d (trace s') = balance d (trace s)
    | Return (Inr a) \<Rightarrow> \<forall>d. balance d (trace s') = balance d (trace s) + (if d = inner a then 1 else 0)
    | Again \<Rightarrow> \<exists>fd. \<forall>d. balance d (trace s') = balance d (trace s) + (if d = fd then 1 else 0)
    | Panicked \<Rightarrow> False"
proof -
  obtain r1 s1 where st: "connect_start K local addrs config s = (r1, s1)" by fastforce
  show ?thesis
  proof (cases r1)
    case (Inl e)
    with st assms connecting.error_balance [of K local addrs config s e s1] show ?thesis
      by (auto simp: connect_bound_def)
  next
    case (Inr fd)
    obtain t both s2 where e: "established K fd n s1 = (t, both, s2)" by (metis surj_pair)
    have b: "balance d (trace s2) = balance d (trace s) + (if d = fd then 1 else 0)" "t \<noteq> Panicked" for d
      using st Inr established_balance [OF e, of d] connecting.ok_balance [of K local addrs config s fd s1 d] by auto
    show ?thesis
    proof (cases t)
      case (Return x)
      with assms st Inr e b show ?thesis
        by (cases x) (auto simp: connect_bound_def new_association_def balance_Cons)
    next
      case Again
      with assms st Inr e b show ?thesis by (auto simp: connect_bound_def)
    qed (use b in simp)
  qed
qed

section \<open>Properties\<close>

text \<open>
  C12: a connect neither leaks nor closes twice. However often it is polled and whatever fails on the
  way (the socket, an option, the local bind, the registration, the connect itself, or the far end
  that refuses), it does not panic; when it returns an error every descriptor is open exactly as often
  as before; when it returns an association exactly its descriptor is open once more; and while it
  waits exactly one descriptor is, the one that the pending connect owns and closes when it is dropped.
\<close>

theorem connect_owns_its_descriptor:
  assumes "connect_bound K n local addrs config s = (r, s')"
  shows "case r of
      Return (Inl e) \<Rightarrow> \<forall>d. balance d (trace s') = balance d (trace s)
    | Return (Inr a) \<Rightarrow> \<forall>d. balance d (trace s') = balance d (trace s) + (if d = inner a then 1 else 0)
    | Again \<Rightarrow> \<exists>fd. \<forall>d. balance d (trace s') = balance d (trace s) + (if d = fd then 1 else 0)
    | Panicked \<Rightarrow> False"
  using assms by (rule connect_bound_balance)

lemmas connect_eval = connect_bound_def connect_start_def ports_differ_def checked_def check_ret_def syscall_def
  owning_def connect_socket_setup_def and_then_def set_nonblocking_def config_apply_def if_some_def cfg_new_def
  default_SctpConfig_def configure_events_def register_def connectx_def established_def established_turn_def
  poll_ready_def outcome_def check_so_error_def probe_def prog_apply sample_calls sample_sys_def neg_def Let_def

theorem connect_owns_its_descriptor_witness:
  "\<exists>s'. connect_bound sample_kernel 1 [] [V4 1 80] cfg_new (sample_sys [] 1) = (Return (Inr (new_association 3)), s')
    \<and> (\<forall>d. balance d (trace s') = (if d = 3 then 1 else 0))"
proof -
  obtain r s' where c: "connect_bound sample_kernel 1 [] [V4 1 80] cfg_new (sample_sys [] 1) = (r, s')" by fastforce
  then have r: "r = Return (Inr (new_association 3))"
    by (simp add: connect_eval)
  from connect_owns_its_descriptor [OF c] c r show ?thesis by (auto simp: sample_sys_def new_association_def)
qed

text \<open>
  C28: what a connect asks of the kernel before it waits, call by call. The peers and the local
  addresses are validated first. Then the socket is created, IPv6 if any address is and then with IPv4
  allowed on it, made non-blocking, and given its options, among them the INIT parameters, its event
  subscription and its local addresses; only then is it registered and the connect of all the peer
  addresses started, so that everything the handshake depends on is in place.
\<close>

theorem connect_call_order:
  assumes "connect_start K local addrs config s = (Inr fd, s')"
  shows "addrs \<noteq> [] \<and> (\<forall>a \<in> set local. \<forall>b \<in> set local. port a = port b) \<and> (\<exists>flags. trace s' = trace s @
      Call_socket (connect_domain K local addrs) (SOCK_STREAM K) IPPROTO_SCTP fd # nonblocking_calls K fd flags
      @ v6_calls K (connect_domain K local addrs) fd @ option_calls K config fd @ [events_call fd]
      @ (if local \<noteq> [] then reuse_call K fd # bind_calls K fd local else [])
      @ [Call_register fd, Call_connectx fd (pack K addrs) (word_of_nat (length addrs))])"
  using connect_start_Inr [OF assms] by (auto simp: ports_differ_def list_ex_iff split: list.splits)

theorem connect_call_order_witness:
  "\<exists>fd s'. connect_start sample_kernel [V4 7 9] [V4 1 80] cfg_new (sample_sys [] 1) = (Inr fd, s')
    \<and> last (trace s') = Call_connectx fd (pack sample_kernel [V4 1 80]) 1"
proof -
  obtain r s' where c: "connect_start sample_kernel [V4 7 9] [V4 1 80] cfg_new (sample_sys [] 1) = (r, s')" by fastforce
  then have "r = Inr 3"
    by (cases "to_raw sample_kernel (V4 7 9)")
      (simp add: connect_eval bind_local_def set_reuseaddr_def bind_primary_def bind_further_def)
  with c have c: "connect_start sample_kernel [V4 7 9] [V4 1 80] cfg_new (sample_sys [] 1) = (Inr 3, s')" by simp
  from connect_call_order [OF c] c show ?thesis by auto
qed

text \<open>
  A connect with no peer, or with local addresses of different ports, is refused before anything
  is asked of the kernel, whatever it is given otherwise.
\<close>

lemma connect_refuses:
  "(connect_from K n local [] config s = (Return (Inl (Io (Custom InvalidInput ''no connect addresses''))), s))
   \<and> (addrs \<noteq> [] \<and> a \<in> set local \<and> b \<in> set local \<and> port a \<noteq> port b \<longrightarrow>
      connect_from K n local addrs config s =
        (Return (Inl (InvalidAddress ''the local addresses of one endpoint share one port'')), s))"
proof -
  have "ports_differ local" if "a \<in> set local" "b \<in> set local" "port a \<noteq> port b"
    using that by (cases local) (simp_all add: ports_differ_def list_ex_iff, metis)
  then show ?thesis
    by (auto simp: connect_from_def connect_bound_def connect_start_def err_def)
qed

end
