(* ===== verification/Listener.thy ===== *)
theory Listener
  imports Assoc_Connect
begin

text \<open>
  \<open>src/listener.rs\<close>: the one-to-one listener, its bind, its accept and its local address.
\<close>

section \<open>State and operations\<close>

text \<open>\<open>l_inner\<close> is the descriptor of the registered \<open>ListenSocket\<close>, which closes it on drop.\<close>

record SctpListener =
  l_inner :: i32

definition listen_on :: "('w, 'x) kernel_scheme \<Rightarrow> i32 \<Rightarrow> (SctpError, unit, 'w sys) prog" where
  "listen_on K fd = and_then (checked K (syscall (\<lambda>_. Call_listen fd 128) (k_listen K fd 128))) (\<lambda>_. ok ())"

definition listener_setup :: "('w, 'x) kernel_scheme \<Rightarrow> i32 \<Rightarrow> SocketAddr \<Rightarrow> SocketAddr list \<Rightarrow> i32 \<Rightarrow> SctpConfig \<Rightarrow>
    (SctpError, unit, 'w sys) prog" where
  "listener_setup K fd primary addrs domain config =
     and_then (set_reuseaddr K fd) (\<lambda>_.
     and_then (if domain = AF_INET6 K then set_v6only K fd False else ok ()) (\<lambda>_.
     and_then (config_apply K config fd) (\<lambda>_.
     and_then (bind_primary K fd primary) (\<lambda>_.
     and_then (bind_further K fd addrs) (\<lambda>_.
     and_then (listen_on K fd) (\<lambda>_.
     and_then (set_nonblocking K fd) (\<lambda>_.
     register K fd)))))))"

text \<open>An error of \<open>setup\<close> is returned after a close of the descriptor.\<close>

definition listener_bind_impl :: "('w, 'x) kernel_scheme \<Rightarrow> SocketAddr list \<Rightarrow> SctpConfig \<Rightarrow>
    (SctpError, SctpListener, 'w sys) prog" where
  "listener_bind_impl K addrs config = (case addrs of
     [] \<Rightarrow> err (Io (Custom InvalidInput ''no bind addresses''))
   | primary # _ \<Rightarrow>
       let domain = (if list_ex is_ipv6 addrs then AF_INET6 K else AF_INET K) in
       and_then (checked K (syscall (Call_socket domain (SOCK_STREAM K) IPPROTO_SCTP)
         (k_socket K domain (SOCK_STREAM K) IPPROTO_SCTP))) (\<lambda>fd s.
       case listener_setup K fd primary addrs domain config s of
         (Inr _, s') \<Rightarrow> (Inr \<lparr>l_inner = fd\<rparr>, s')
       | (Inl e, s') \<Rightarrow> (Inl e, close_fd K fd s')))"

definition listener_bind :: "('w, 'x) kernel_scheme \<Rightarrow> SocketAddr \<Rightarrow> (SctpError, SctpListener, 'w sys) prog" where
  "listener_bind K addr = listener_bind_impl K [addr] default_SctpConfig"

definition listener_bind_config :: "('w, 'x) kernel_scheme \<Rightarrow> SocketAddr \<Rightarrow> SctpConfig \<Rightarrow>
    (SctpError, SctpListener, 'w sys) prog" where
  "listener_bind_config K addr config = listener_bind_impl K [addr] config"

definition listener_bind_multi :: "('w, 'x) kernel_scheme \<Rightarrow> SocketAddr list \<Rightarrow>
    (SctpError, SctpListener, 'w sys) prog" where
  "listener_bind_multi K addrs = listener_bind_impl K addrs default_SctpConfig"

definition listener_bind_multi_with :: "('w, 'x) kernel_scheme \<Rightarrow> SocketAddr list \<Rightarrow> SctpConfig \<Rightarrow>
    (SctpError, SctpListener, 'w sys) prog" where
  "listener_bind_multi_with K addrs config = listener_bind_impl K addrs config"

definition accept_turn :: "('w, 'x) kernel_scheme \<Rightarrow> SctpListener \<Rightarrow> 'w sys \<Rightarrow>
    (SctpError + SctpAssociation \<times> SocketAddr) turn \<times> 'w sys" where
  "accept_turn K l s = (let fd = l_inner l in
     case poll_ready K fd READABLE s of
       (ReadyErr e, s1) \<Rightarrow> (Return (Inl (Io e)), s1)
     | (NotReady, s1) \<Rightarrow> (Again, s1)
     | (Ready, s1) \<Rightarrow>
         (case syscall (\<lambda>(new_fd, _). Call_accept fd new_fd) (k_accept K fd) s1 of
          ((new_fd, written), s2) \<Rightarrow>
            if neg new_fd then
              (let er = last_os_error K s2 in
               if is_would_block K er then (Again, clear_ready K fd READABLE s2)
               else (Return (Inl (Io er)), s2))
            else
              (case from_raw K (put_at 0 written (zeroed_storage K)) of
                 Inl e \<Rightarrow> (Return (Inl e), s2)
               | Inr peer \<Rightarrow>
                   (case from_raw_fd K new_fd s2 of
                      (Inl e, s3) \<Rightarrow> (Return (Inl e), s3)
                    | (Inr assoc, s3) \<Rightarrow> (Return (Inr (assoc, peer)), s3)))))"

definition accept :: "('w, 'x) kernel_scheme \<Rightarrow> SctpListener \<Rightarrow> nat \<Rightarrow> 'w sys \<Rightarrow>
    (SctpError + SctpAssociation \<times> SocketAddr) turn \<times> 'w sys" where
  "accept K l n = run_turns (accept_turn K l) n"

text \<open>\<open>local_addr\<close> of the listener; the server has the same.\<close>

definition getsockname_addr :: "('w, 'x) kernel_scheme \<Rightarrow> i32 \<Rightarrow> (SctpError, SocketAddr, 'w sys) prog" where
  "getsockname_addr K fd = (\<lambda>s.
     case syscall (\<lambda>_. Call_getsockname fd) (k_getsockname K fd) s of
     ((ret, written), s') \<Rightarrow>
       if neg ret then (Inl (Io (last_os_error K s')), s')
       else (from_raw K (put_at 0 written (zeroed_storage K)), s'))"

definition listener_local_addr :: "('w, 'x) kernel_scheme \<Rightarrow> SctpListener \<Rightarrow> (SctpError, SocketAddr, 'w sys) prog" where
  "listener_local_addr K l = getsockname_addr K (l_inner l)"

definition drop_listener :: "('w, 'x) kernel_scheme \<Rightarrow> SctpListener \<Rightarrow> 'w sys \<Rightarrow> 'w sys" where
  "drop_listener K l = close_fd K (l_inner l)"

section \<open>Binding\<close>

lemma quiet_listen_on [quiet_intros]: "quiet (listen_on K fd)"
  unfolding listen_on_def by (intro quiet_intros) simp

lemma emits_listen_on [emits_intros]: "emits (listen_on K fd) {[Call_listen fd 128]}"
  unfolding listen_on_def by (intro emits_intros)

text \<open>The setup before the registration.\<close>

definition listener_prepare :: "('w, 'x) kernel_scheme \<Rightarrow> SocketAddr list \<Rightarrow> i32 \<Rightarrow> SctpConfig \<Rightarrow> i32 \<Rightarrow>
    (SctpError, unit, 'w sys) prog" where
  "listener_prepare K addrs domain config fd =
     and_then (set_reuseaddr K fd) (\<lambda>_.
     and_then (if domain = AF_INET6 K then set_v6only K fd False else ok ()) (\<lambda>_.
     and_then (config_apply K config fd) (\<lambda>_.
     and_then (and_then (bind_primary K fd (hd addrs)) (\<lambda>_. bind_further K fd addrs)) (\<lambda>_.
     and_then (listen_on K fd) (\<lambda>_.
     set_nonblocking K fd)))))"

lemma quiet_listener_prepare: "quiet (listener_prepare K addrs domain config fd)"
  unfolding listener_prepare_def by (intro quiet_intros)

lemma listener_setup_prepare:
  "listener_setup K fd (hd addrs) addrs domain config = and_then (listener_prepare K addrs domain config fd) (\<lambda>_. register K fd)"
  by (simp add: listener_setup_def listener_prepare_def and_then_assoc)

definition bind_domain :: "('w, 'x) kernel_scheme \<Rightarrow> SocketAddr list \<Rightarrow> i32" where
  "bind_domain K addrs = (if list_ex is_ipv6 addrs then AF_INET6 K else AF_INET K)"

lemma listener_bind_impl_with:
  "addrs \<noteq> [] \<Longrightarrow> listener_bind_impl K addrs config =
     bind_with K (bind_domain K addrs) (SOCK_STREAM K) (listener_prepare K addrs (bind_domain K addrs) config)
       (\<lambda>fd. \<lparr>l_inner = fd\<rparr>)"
  by (cases addrs; rule ext)
    (auto simp: listener_bind_impl_def bind_with_def bind_domain_def Let_def and_then_def owning_def prog_apply
      listener_setup_prepare [of K _ "_ # _", simplified] split: prod.splits sum.splits)

text \<open>The calls of the setup before the registration.\<close>

definition listener_calls :: "('w, 'x) kernel_scheme \<Rightarrow> SocketAddr list \<Rightarrow> SctpConfig \<Rightarrow> i32 \<Rightarrow> i32 \<Rightarrow> call list" where
  "listener_calls K addrs config fd flags = reuse_call K fd # v6_calls K (bind_domain K addrs) fd @ option_calls K config fd
     @ bind_calls K fd addrs @ Call_listen fd 128 # nonblocking_calls K fd flags"

lemma emits_listener_prepare:
  assumes "addrs \<noteq> []"
  shows "emits (listener_prepare K addrs (bind_domain K addrs) config fd) (range (listener_calls K addrs config fd))"
proof -
  obtain a as where a: "addrs = a # as" using assms by (cases addrs) auto
  have "emits (listener_prepare K addrs (bind_domain K addrs) config fd)
     (followed_by {[reuse_call K fd]} (followed_by {v6_calls K (bind_domain K addrs) fd}
       (followed_by {option_calls K config fd} (followed_by {bind_calls K fd addrs}
         (followed_by {[Call_listen fd 128]} (range (nonblocking_calls K fd)))))))"
    unfolding listener_prepare_def option_calls_def a list.sel
    by (intro emits_and_then [OF emits_set_reuseaddr] emits_and_then [OF emits_set_v6only]
        emits_and_then [OF emits_config_apply] emits_and_then [OF emits_bind] emits_and_then [OF emits_listen_on]
        emits_set_nonblocking)
  then show ?thesis
    by (rule emits_mono) (auto simp: followed_by_def listener_calls_def)
qed

lemma listener_bind_impl_Nil: "listener_bind_impl K [] config s = (Inl (Io (Custom InvalidInput ''no bind addresses'')), s)"
  by (simp add: listener_bind_impl_def prog_apply)

interpretation listening: fd_constructor "listener_bind_impl K addrs config" l_inner
  "\<lambda>tr fd. of_bool (Call_register fd \<in> set tr)" for K addrs config
proof (cases "addrs = []")
  case True
  then show "fd_constructor (listener_bind_impl K addrs config) l_inner (\<lambda>tr fd. of_bool (Call_register fd \<in> set tr))"
    by unfold_locales (auto simp: listener_bind_impl_Nil)
next
  case False
  show "fd_constructor (listener_bind_impl K addrs config) l_inner (\<lambda>tr fd. of_bool (Call_register fd \<in> set tr))"
    unfolding listener_bind_impl_with [OF False]
    by (rule bind_with_fd_constructor) (simp_all add: quiet_listener_prepare)
qed

lemma listener_bind_balance:
  assumes "registers K" and "listener_bind_multi_with K addrs config s = (r, s')"
  shows "balance d (trace s') = balance d (trace s)
    + (case r of Inl e \<Rightarrow> 0 | Inr l \<Rightarrow> if d = l_inner l then 1 else 0)"
proof -
  have b: "listener_bind_impl K addrs config s = (r, s')" using assms(2) by (simp add: listener_bind_multi_with_def)
  have "Call_register d \<notin> set (new_calls s s')" if "r = Inl e" for e
  proof (cases "addrs = []")
    case True
    with b show ?thesis by (auto simp: listener_bind_impl_Nil)
  next
    case False
    with b that bind_with_registers [OF assms(1) quiet_listener_prepare] show ?thesis
      by (simp add: listener_bind_impl_with)
  qed
  then show ?thesis using listening.make_balance [OF b] by simp
qed

lemma listener_bind_double_close:
  assumes "listener_bind_multi_with K addrs config s = (Inl e, s')" and "Call_register fd \<in> set (new_calls s s')"
  shows "(\<exists>tr. trace s' = trace s @ tr @ [Call_register fd, Call_close fd, Call_close fd])
    \<and> balance fd (trace s') = balance fd (trace s) - 1"
proof -
  have ne: "addrs \<noteq> []" using assms by (auto simp: listener_bind_multi_with_def listener_bind_impl_Nil)
  with assms show ?thesis
    by (intro bind_with_double_close [OF quiet_listener_prepare])
      (simp_all add: listener_bind_multi_with_def listener_bind_impl_with)
qed

section \<open>Accepting\<close>

text \<open>The descriptor and address of an accepted connection.\<close>

lemma accept_turn_cases:
  assumes "accept_turn K l s = (t, s')"
  obtains (nothing) "\<And>d. balance d (trace s') = balance d (trace s)" "t = Again \<or> (\<exists>e. t = Return (Inl e))"
  | (bad_address) fd e where "\<And>d. balance d (trace s') = balance d (trace s) + (if d = fd then 1 else 0)" "t = Return (Inl e)"
  | (accepted) fd peer s2 r where "\<And>d. balance d (trace s2) = balance d (trace s) + (if d = fd then 1 else 0)"
      "from_raw_fd K fd s2 = (r, s')" "t = Return (map_sum id (\<lambda>a. (a, peer)) r)"
proof -
  obtain rd s1 where p: "poll_ready K (l_inner l) READABLE s = (rd, s1)" by fastforce
  note b1 = quiet_balance' [OF quiet_poll_ready p]
  obtain fd written s2 where acc: "syscall (\<lambda>(new_fd, _). Call_accept (l_inner l) new_fd) (k_accept K (l_inner l)) s1 =
      ((fd, written), s2)" by (metis surj_pair)
  then have t2: "trace s2 = trace s1 @ [Call_accept (l_inner l) fd]"
    by (auto simp: syscall_def split: prod.splits)
  show ?thesis
  proof (cases "rd = Ready \<and> \<not> neg fd")
    case False
    with assms p acc b1 t2
    have n: "balance d (trace s') = balance d (trace s) \<and> (t = Again \<or> (\<exists>e. t = Return (Inl e)))" for d
      by (cases rd) (auto simp: accept_turn_def Let_def balance_Cons split: if_splits)
    show ?thesis by (rule nothing) (use n in simp_all)
  next
    case True
    then have b2: "balance d (trace s2) = balance d (trace s) + (if d = fd then 1 else 0)" for d
      using b1 t2 by (auto simp: balance_Cons)
    show ?thesis
    proof (cases "from_raw K (put_at 0 written (zeroed_storage K))")
      case (Inl e)
      with True assms p acc b2 bad_address [of fd e] show ?thesis by (auto simp: accept_turn_def Let_def)
    next
      case (Inr peer)
      with True assms p acc b2 accepted [of s2 fd _ peer] show ?thesis
        by (auto simp: accept_turn_def Let_def split: prod.splits sum.splits)
    qed
  qed
qed

text \<open>What the outcome of an accept says of the descriptors before and after it.\<close>

definition accept_kept :: "(SctpError + SctpAssociation \<times> SocketAddr) turn \<Rightarrow> (i32 \<Rightarrow> int) \<Rightarrow> (i32 \<Rightarrow> int) \<Rightarrow> bool" where
  "accept_kept t b b' = (case t of
      Again \<Rightarrow> \<forall>d. b' d = b d
    | Return (Inr (a, peer)) \<Rightarrow> a = new_association (inner a) \<and> (\<forall>d. b' d = b d + (if d = inner a then 1 else 0))
    | Return (Inl e) \<Rightarrow> \<exists>fd. (\<forall>d. d \<noteq> fd \<longrightarrow> b' d = b d) \<and> b' fd - b fd \<in> {0, 1}
    | Panicked \<Rightarrow> False)"

lemma accept_turn_kept:
  assumes "accept_turn K l s = (t, s')"
  shows "accept_kept t (\<lambda>d. balance d (trace s)) (\<lambda>d. balance d (trace s'))"
  using assms
proof (cases rule: accept_turn_cases)
  case nothing
  then show ?thesis by (auto simp: accept_kept_def)
next
  case (bad_address fd e)
  then show ?thesis by (auto simp: accept_kept_def)
next
  case (accepted fd peer s2 r)
  from accepted(2) show ?thesis
    by (cases rule: from_raw_fd_cases) (use accepted(1,3) in \<open>auto simp: accept_kept_def new_association_def\<close>)
qed

lemma accept_keeps:
  "accept K l n s = (t, s') \<Longrightarrow> accept_kept t (\<lambda>d. balance d (trace s)) (\<lambda>d. balance d (trace s'))"
proof (induction n arbitrary: s)
  case 0
  then show ?case by (auto simp: accept_def accept_kept_def)
next
  case (Suc n)
  obtain u s1 where u: "accept_turn K l s = (u, s1)" by fastforce
  note k = accept_turn_kept [OF u]
  show ?case
  proof (cases u)
    case Again
    with k have "(\<lambda>d. balance d (trace s1)) = (\<lambda>d. balance d (trace s))" by (simp add: accept_kept_def)
    with Suc.IH [of s1] Suc.prems u Again show ?thesis by (simp add: accept_def)
  next
    case (Return x)
    with Suc.prems u have "t = u" "s' = s1" by (simp_all add: accept_def)
    with k show ?thesis by simp
  next
    case Panicked
    with k show ?thesis by (simp add: accept_kept_def)
  qed
qed

section \<open>Properties\<close>

definition calm_kernel :: "sample_world kernel" where
  "calm_kernel = sample_kernel\<lparr>k_register := (\<lambda>_ w. (Inr (), w))\<rparr>"

lemma calm_registers: "registers calm_kernel"
  by (simp add: registers_def calm_kernel_def)

lemmas bind_eval = checked_def check_ret_def syscall_def and_then_def set_nonblocking_def config_apply_def if_some_def
  cfg_new_def default_SctpConfig_def configure_events_def register_def listener_bind_impl_def listener_setup_def
  listener_bind_multi_with_def set_reuseaddr_def bind_primary_def bind_further_def listen_on_def close_fd_def syscall_unit_def
  prog_apply sample_calls sample_sys_def neg_def Let_def

definition sample_unregistered :: "sample_world sys" where
  "sample_unregistered = (sample_sys [] 0)\<lparr>kern := (kern (sample_sys [] 0))\<lparr>reg_fails := True\<rparr>\<rparr>"

text \<open>
  What a bind asks of the kernel, call by call: the addresses are reused, an IPv6 socket takes
  IPv4 as well, every option is set before the first address is bound, the remaining addresses are
  added in one call, and the socket listens before it is made non-blocking and registered.
\<close>

lemma listener_bind_call_order:
  assumes "listener_bind_multi_with K addrs config s = (Inr l, s')"
  shows "addrs \<noteq> [] \<and> (\<exists>flags. trace s' = trace s @
     Call_socket (if list_ex is_ipv6 addrs then AF_INET6 K else AF_INET K) (SOCK_STREAM K) IPPROTO_SCTP (l_inner l)
     # listener_calls K addrs config (l_inner l) flags @ [Call_register (l_inner l)])"
proof -
  have ne: "addrs \<noteq> []" using assms by (auto simp: listener_bind_multi_with_def listener_bind_impl_Nil)
  with bind_with_Inr [OF emits_listener_prepare [OF ne], where K = K and s = s and s' = s' and x = l] assms
  show ?thesis
    by (fastforce simp: listener_bind_multi_with_def listener_bind_impl_with bind_domain_def)
qed

text \<open>
  C40: accepting. However often \<open>accept\<close> is polled, it does not panic; while it waits no descriptor is
  open that was not, so one dropped while it waits loses nothing; an association it returns is fresh and
  its descriptor is the only one that is open once more; with an error at most one descriptor is.
\<close>

theorem accept_descriptors:
  assumes "accept K l n s = (t, s')"
  shows "case t of
      Again \<Rightarrow> \<forall>d. balance d (trace s') = balance d (trace s)
    | Return (Inr (a, peer)) \<Rightarrow> a = new_association (inner a)
        \<and> (\<forall>d. balance d (trace s') = balance d (trace s) + (if d = inner a then 1 else 0))
    | Return (Inl e) \<Rightarrow> \<exists>fd. (\<forall>d. d \<noteq> fd \<longrightarrow> balance d (trace s') = balance d (trace s))
        \<and> balance fd (trace s') - balance fd (trace s) \<in> {0, 1}
    | Panicked \<Rightarrow> False"
  using accept_keeps [OF assms] by (simp add: accept_kept_def)

theorem accept_descriptors_witness:
  "\<exists>s'. accept sample_kernel \<lparr>l_inner = 3\<rparr> 5 (sample_sys [] 0) = (Again, s') \<and> balance 4 (trace s') = 0"
proof -
  obtain s' where c: "accept sample_kernel \<lparr>l_inner = 3\<rparr> 5 (sample_sys [] 0) = (Again, s')"
    by (simp add: accept_def accept_turn_def poll_ready_def syscall_def sample_calls sample_sys_def numeral_eq_Suc)
  from accept_descriptors [OF c] c show ?thesis by (simp add: sample_sys_def)
qed

lemma sample_no_sender: "\<exists>e. from_raw sample_kernel (put_at 0 [] (zeroed_storage sample_kernel)) = Inl e"
proof -
  have "read_u16 Little 0 (zeroed_storage sample_kernel) = 0"
    by (simp add: zeroed_storage_def sample_kernel_def libc.defs linux_libc_def read_u16_def get_at_def numeral_eq_Suc)
  then show ?thesis
    by (simp add: from_raw_def Let_def put_at_def sample_calls sample_offsets)
qed

text \<open>
  An accepted descriptor can leak: when the peer's address does not convert, \<open>accept\<close> returns the
  error and the descriptor the kernel has just returned stays open, owned by nobody.
\<close>

lemma accept_leaks:
  assumes "k_ready K (l_inner l) READABLE (kern s) = (Ready, w1)"
    and "k_accept K (l_inner l) w1 = ((fd, written), w2)" and "\<not> neg fd"
    and "from_raw K (put_at 0 written (zeroed_storage K)) = Inl e"
  shows "\<exists>s'. accept K l (Suc n) s = (Return (Inl e), s') \<and> balance fd (trace s') = balance fd (trace s) + 1"
  using assms
  by (simp add: accept_def accept_turn_def poll_ready_def syscall_def balance_Cons Let_def)

end
