(* ===== verification/Server.thy ===== *)
theory Server
  imports Assoc_Recv Assoc_Send Listener
begin

text \<open>
  \<open>src/server.rs\<close>: the one-to-many server, one socket for many associations.
\<close>

unbundle bit_operations_syntax

section \<open>State and operations\<close>

record SctpServer =
  sv_inner :: i32
  sv_recv_state :: Reassembly

datatype ServerMessage = ServerData bytes RecvInfo SocketAddr | ServerNotification Notification

definition server_setup :: "('w, 'x) kernel_scheme \<Rightarrow> i32 \<Rightarrow> SocketAddr \<Rightarrow> SocketAddr list \<Rightarrow> i32 \<Rightarrow> SctpConfig \<Rightarrow>
    (SctpError, unit, 'w sys) prog" where
  "server_setup K fd primary addrs domain config =
     and_then (set_reuseaddr K fd) (\<lambda>_.
     and_then (if domain = AF_INET6 K then set_v6only K fd False else ok ()) (\<lambda>_.
     and_then (config_apply K config fd) (\<lambda>_.
     and_then (configure_events K fd) (\<lambda>_.
     and_then (bind_primary K fd primary) (\<lambda>_.
     and_then (bind_further K fd addrs) (\<lambda>_.
     and_then (listen_on K fd) (\<lambda>_.
     and_then (set_nonblocking K fd) (\<lambda>_.
     register K fd))))))))"

definition server_bind_impl :: "('w, 'x) kernel_scheme \<Rightarrow> SocketAddr list \<Rightarrow> SctpConfig \<Rightarrow>
    (SctpError, SctpServer, 'w sys) prog" where
  "server_bind_impl K addrs config = (case addrs of
     [] \<Rightarrow> err (Io (Custom InvalidInput ''no bind addresses''))
   | primary # _ \<Rightarrow>
       let domain = (if list_ex is_ipv6 addrs then AF_INET6 K else AF_INET K) in
       and_then (checked K (syscall (Call_socket domain (SOCK_SEQPACKET K) IPPROTO_SCTP)
         (k_socket K domain (SOCK_SEQPACKET K) IPPROTO_SCTP))) (\<lambda>fd s.
       case server_setup K fd primary addrs domain config s of
         (Inr _, s') \<Rightarrow> (Inr \<lparr>sv_inner = fd, sv_recv_state = default_Reassembly\<rparr>, s')
       | (Inl e, s') \<Rightarrow> (Inl e, close_fd K fd s')))"

definition server_bind :: "('w, 'x) kernel_scheme \<Rightarrow> SocketAddr \<Rightarrow> (SctpError, SctpServer, 'w sys) prog" where
  "server_bind K addr = server_bind_impl K [addr] default_SctpConfig"

definition server_bind_config :: "('w, 'x) kernel_scheme \<Rightarrow> SocketAddr \<Rightarrow> SctpConfig \<Rightarrow>
    (SctpError, SctpServer, 'w sys) prog" where
  "server_bind_config K addr config = server_bind_impl K [addr] config"

definition server_bind_multi :: "('w, 'x) kernel_scheme \<Rightarrow> SocketAddr list \<Rightarrow> (SctpError, SctpServer, 'w sys) prog" where
  "server_bind_multi K addrs = server_bind_impl K addrs default_SctpConfig"

definition server_bind_multi_with :: "('w, 'x) kernel_scheme \<Rightarrow> SocketAddr list \<Rightarrow> SctpConfig \<Rightarrow>
    (SctpError, SctpServer, 'w sys) prog" where
  "server_bind_multi_with K addrs config = server_bind_impl K addrs config"

definition server_recv_turn :: "('w, 'x) kernel_scheme \<Rightarrow> SctpServer \<times> 'w sys \<Rightarrow>
    (SctpError + ServerMessage) turn \<times> SctpServer \<times> 'w sys" where
  "server_recv_turn K = (\<lambda>(v, s). let fd = sv_inner v in
     case poll_ready K fd READABLE s of
       (ReadyErr e, s1) \<Rightarrow> (Return (Inl (Io e)), v, s1)
     | (NotReady, s1) \<Rightarrow> (Again, v, s1)
     | (Ready, s1) \<Rightarrow>
         (case recv_step K fd True (sv_recv_state v) s1 of
          (step, r, s2) \<Rightarrow> let v' = v\<lparr>sv_recv_state := r\<rparr> in
            (case step of
               None \<Rightarrow> (Panicked, v', s2)
             | Some WouldBlock \<Rightarrow> (Again, v', clear_ready K fd READABLE s2)
             | Some More \<Rightarrow> (Again, v', s2)
             | Some (StepNotification n) \<Rightarrow> (Return (Inr (ServerNotification n)), v', s2)
             | Some (Complete d info addr) \<Rightarrow>
                 (case addr of
                    None \<Rightarrow> (Return (Inl (Io (Custom InvalidData ''sctp: data message without a peer address''))), v', s2)
                  | Some peer \<Rightarrow> (Return (Inr (ServerData d info peer)), v', s2))
             | Some (StepErr e) \<Rightarrow> (Return (Inl e), v', s2))))"

definition server_recv :: "('w, 'x) kernel_scheme \<Rightarrow> nat \<Rightarrow> SctpServer \<times> 'w sys \<Rightarrow>
    (SctpError + ServerMessage) turn \<times> SctpServer \<times> 'w sys" where
  "server_recv K n = run_turns (server_recv_turn K) n"

definition server_sinfo :: "endian \<Rightarrow> i32 \<Rightarrow> u16 \<Rightarrow> u32 \<Rightarrow> SendOptions \<Rightarrow> SctpSndRcvInfo" where
  "server_sinfo e aid sid pp opts = default_SctpSndRcvInfo\<lparr>sinfo_stream := sid,
     sinfo_flags := ucast (opts_sinfo_flags opts), sinfo_ppid := to_be e 4 pp,
     sinfo_timetolive := ttl_ms opts, sinfo_assoc_id := aid\<rparr>"

definition server_send_with_turn :: "('w, 'x) kernel_scheme \<Rightarrow> i32 \<Rightarrow> bytes \<Rightarrow> u16 \<Rightarrow> u32 \<Rightarrow> SendOptions \<Rightarrow>
    SctpServer \<times> 'w sys \<Rightarrow> (SctpError + usize) turn \<times> SctpServer \<times> 'w sys" where
  "server_send_with_turn K aid data sid pp opts = (\<lambda>(v, s). let fd = sv_inner v in
     case poll_ready K fd WRITABLE s of
       (ReadyErr e, s1) \<Rightarrow> (Return (Inl (Io e)), v, s1)
     | (NotReady, s1) \<Rightarrow> (Again, v, s1)
     | (Ready, s1) \<Rightarrow>
         let sinfo = server_sinfo (target_endian K) aid sid pp opts in
         (case syscall (Call_send fd data sinfo 0) (k_send K fd data sinfo 0) s1 of
          (ret, s2) \<Rightarrow>
            if neg ret then
              (let er = last_os_error K s2 in
               if is_would_block K er then (Again, v, clear_ready K fd WRITABLE s2)
               else (Return (Inl (Io er)), v, s2))
            else (Return (Inr (scast ret)), v, s2)))"

definition server_send_with :: "('w, 'x) kernel_scheme \<Rightarrow> nat \<Rightarrow> i32 \<Rightarrow> bytes \<Rightarrow> u16 \<Rightarrow> u32 \<Rightarrow> SendOptions \<Rightarrow>
    SctpServer \<times> 'w sys \<Rightarrow> (SctpError + usize) turn \<times> SctpServer \<times> 'w sys" where
  "server_send_with K n aid data sid pp opts = run_turns (server_send_with_turn K aid data sid pp opts) n"

definition server_send :: "('w, 'x) kernel_scheme \<Rightarrow> nat \<Rightarrow> i32 \<Rightarrow> bytes \<Rightarrow> u16 \<Rightarrow> u32 \<Rightarrow>
    SctpServer \<times> 'w sys \<Rightarrow> (SctpError + usize) turn \<times> SctpServer \<times> 'w sys" where
  "server_send K n aid data sid pp = server_send_with K n aid data sid pp default_SendOptions"

definition peeloff :: "('w, 'x) kernel_scheme \<Rightarrow> SctpServer \<Rightarrow> i32 \<Rightarrow> (SctpError, SctpAssociation, 'w sys) prog" where
  "peeloff K v aid =
     and_then (checked K (syscall (Call_peeloff (sv_inner v) aid) (k_peeloff K (sv_inner v) aid))) (\<lambda>new_fd.
     from_raw_fd K new_fd)"

definition server_local_addr :: "('w, 'x) kernel_scheme \<Rightarrow> SctpServer \<Rightarrow> (SctpError, SocketAddr, 'w sys) prog" where
  "server_local_addr K v = getsockname_addr K (sv_inner v)"

definition drop_server :: "('w, 'x) kernel_scheme \<Rightarrow> SctpServer \<Rightarrow> 'w sys \<Rightarrow> 'w sys" where
  "drop_server K v = close_fd K (sv_inner v)"

section \<open>Binding\<close>

definition server_prepare :: "('w, 'x) kernel_scheme \<Rightarrow> SocketAddr list \<Rightarrow> i32 \<Rightarrow> SctpConfig \<Rightarrow> i32 \<Rightarrow>
    (SctpError, unit, 'w sys) prog" where
  "server_prepare K addrs domain config fd =
     and_then (set_reuseaddr K fd) (\<lambda>_.
     and_then (if domain = AF_INET6 K then set_v6only K fd False else ok ()) (\<lambda>_.
     and_then (config_apply K config fd) (\<lambda>_.
     and_then (configure_events K fd) (\<lambda>_.
     and_then (and_then (bind_primary K fd (hd addrs)) (\<lambda>_. bind_further K fd addrs)) (\<lambda>_.
     and_then (listen_on K fd) (\<lambda>_.
     set_nonblocking K fd))))))"

lemma quiet_server_prepare: "quiet (server_prepare K addrs domain config fd)"
  unfolding server_prepare_def by (intro quiet_intros)

lemma server_setup_prepare:
  "server_setup K fd (hd addrs) addrs domain config = and_then (server_prepare K addrs domain config fd) (\<lambda>_. register K fd)"
  by (simp add: server_setup_def server_prepare_def and_then_assoc)

lemma server_bind_impl_with:
  "addrs \<noteq> [] \<Longrightarrow> server_bind_impl K addrs config =
     bind_with K (bind_domain K addrs) (SOCK_SEQPACKET K) (server_prepare K addrs (bind_domain K addrs) config)
       (\<lambda>fd. \<lparr>sv_inner = fd, sv_recv_state = default_Reassembly\<rparr>)"
  by (cases addrs; rule ext)
    (auto simp: server_bind_impl_def bind_with_def bind_domain_def Let_def and_then_def owning_def prog_apply
      server_setup_prepare [of K _ "_ # _", simplified] split: prod.splits sum.splits)

lemma server_bind_impl_Nil: "server_bind_impl K [] config s = (Inl (Io (Custom InvalidInput ''no bind addresses'')), s)"
  by (simp add: server_bind_impl_def prog_apply)

interpretation serving: fd_constructor "server_bind_impl K addrs config" sv_inner
  "\<lambda>tr fd. of_bool (Call_register fd \<in> set tr)" for K addrs config
proof (cases "addrs = []")
  case True
  then show "fd_constructor (server_bind_impl K addrs config) sv_inner (\<lambda>tr fd. of_bool (Call_register fd \<in> set tr))"
    by unfold_locales (auto simp: server_bind_impl_Nil)
next
  case False
  show "fd_constructor (server_bind_impl K addrs config) sv_inner (\<lambda>tr fd. of_bool (Call_register fd \<in> set tr))"
    unfolding server_bind_impl_with [OF False]
    by (rule bind_with_fd_constructor) (simp_all add: quiet_server_prepare)
qed

lemma server_bind_balance:
  assumes "registers K" and "server_bind_multi_with K addrs config s = (r, s')"
  shows "balance d (trace s') = balance d (trace s)
    + (case r of Inl e \<Rightarrow> 0 | Inr v \<Rightarrow> if d = sv_inner v then 1 else 0)"
proof -
  have b: "server_bind_impl K addrs config s = (r, s')" using assms(2) by (simp add: server_bind_multi_with_def)
  have "Call_register d \<notin> set (new_calls s s')" if "r = Inl e" for e
  proof (cases "addrs = []")
    case True
    with b show ?thesis by (auto simp: server_bind_impl_Nil)
  next
    case False
    with b that bind_with_registers [OF assms(1) quiet_server_prepare] show ?thesis
      by (simp add: server_bind_impl_with)
  qed
  then show ?thesis using serving.make_balance [OF b] by simp
qed

lemma server_bind_double_close:
  assumes "server_bind_multi_with K addrs config s = (Inl e, s')" and "Call_register fd \<in> set (new_calls s s')"
  shows "(\<exists>tr. trace s' = trace s @ tr @ [Call_register fd, Call_close fd, Call_close fd])
    \<and> balance fd (trace s') = balance fd (trace s) - 1"
proof -
  have ne: "addrs \<noteq> []" using assms by (auto simp: server_bind_multi_with_def server_bind_impl_Nil)
  with assms show ?thesis
    by (intro bind_with_double_close [OF quiet_server_prepare])
      (simp_all add: server_bind_multi_with_def server_bind_impl_with)
qed

section \<open>Receiving\<close>

fun server_step_result :: "Step \<Rightarrow> ServerMessage option" where
  "server_step_result (StepNotification n) = Some (ServerNotification n)"
| "server_step_result (Complete d info (Some peer)) = Some (ServerData d info peer)"
| "server_step_result _ = None"

definition server_chunks :: "('w, 'x) kernel_scheme \<Rightarrow> SctpServer \<times> 'w sys \<Rightarrow> chunk list" where
  "server_chunks K = (\<lambda>(v, s). ready_chunks K (sv_inner v) True s)"

definition server_inv :: "('w, 'x) kernel_scheme \<Rightarrow> SctpServer \<times> 'w sys \<Rightarrow> bool" where
  "server_inv K = (\<lambda>(v, s). recvmsg_ok K \<and> reassembly_inv (sv_recv_state v))"

definition server_acc :: "SctpServer \<times> 'w sys \<Rightarrow> bytes" where
  "server_acc = (\<lambda>(v, s). buf (sv_recv_state v))"

lemmas server_contract_defs = server_chunks_def server_inv_def server_acc_def

interpretation server_recv: receiver "server_recv_turn K" "server_chunks K" server_acc "server_inv K"
  "push_input (target_endian K)" server_step_result for K
proof
  fix vs vs' :: "SctpServer \<times> 'a sys" and t
  assume inv: "server_inv K vs" and turn: "server_recv_turn K vs = (t, vs')"
  obtain v s where vs: "vs = (v, s)" by (cases vs)
  obtain rd s1 where p: "poll_ready K (sv_inner v) READABLE s = (rd, s1)" by fastforce
  obtain st r s2 where step: "recv_step K (sv_inner v) True (sv_recv_state v) s1 = (st, r, s2)" by (metis surj_pair)
  have ok: "recvmsg_ok K" "reassembly_inv (sv_recv_state v)" using inv vs by (simp_all add: server_inv_def)
  show "t \<noteq> Panicked \<and> server_inv K vs' \<and> server_acc vs' = snd (feed (push_input (target_endian K)) (server_acc vs) (server_chunks K vs))
    \<and> List.map_filter turn_result [t] = List.map_filter server_step_result
        (fst (feed (push_input (target_endian K)) (server_acc vs) (server_chunks K vs)))"
  proof (cases "rd = Ready")
    case False
    with p turn ok vs ready_chunks_not_ready [OF p False, of True] show ?thesis
      by (cases rd) (auto simp: server_recv_turn_def server_contract_defs map_filter_def)
  next
    case True
    from ok p [unfolded True] step show ?thesis
    proof (cases rule: ready_step_cases)
      case nothing
      with True p turn ok vs step show ?thesis
        by (auto simp: server_recv_turn_def server_contract_defs map_filter_def Let_def)
    next
      case (chunk c)
      with True p turn ok vs step show ?thesis
        by (cases "fst (push_input (target_endian K) (buf (sv_recv_state v)) c)" rule: server_step_result.cases)
          (auto simp: server_recv_turn_def server_contract_defs feed_one map_filter_def Let_def simp del: feed.simps(2))
    qed
  qed
qed

section \<open>Sending\<close>

definition send_entry :: "endian \<Rightarrow> i32 \<Rightarrow> bytes \<Rightarrow> u16 \<Rightarrow> u32 \<Rightarrow> SendOptions \<Rightarrow> i32 \<Rightarrow> usize \<Rightarrow> call" where
  "send_entry e aid data sid pp opts fd n = Call_send fd data (server_sinfo e aid sid pp opts) 0 (ucast n)"

lemma taken_send_entry: "taken (send_entry e aid data sid pp opts fd n) \<longleftrightarrow> \<not> neg (ucast n)"
  by (simp add: send_entry_def)

lemma server_send_with_turn_cases:
  assumes "server_send_with_turn K aid data sid pp opts (v, s) = (t, v', s')"
  obtains (idle) "t = Again \<or> (\<exists>e. t = Return (Inl e))" "v' = v" "filter taken (trace s') = filter taken (trace s)"
  | (sent) n where "t = Return (Inr n)" "v' = v" "\<not> neg (ucast n)"
      "trace s' = trace s @ [Call_ready (sv_inner v) WRITABLE, send_entry (target_endian K) aid data sid pp opts (sv_inner v) n]"
proof -
  obtain rd s1 where p: "poll_ready K (sv_inner v) WRITABLE s = (rd, s1)" by fastforce
  then have t1: "trace s1 = trace s @ [Call_ready (sv_inner v) WRITABLE]"
    by (auto simp: poll_ready_def syscall_def split: prod.splits)
  let ?i = "server_sinfo (target_endian K) aid sid pp opts"
  obtain ret s2 where c: "syscall (Call_send (sv_inner v) data ?i 0) (k_send K (sv_inner v) data ?i 0) s1 = (ret, s2)" by fastforce
  then have t2: "trace s2 = trace s1 @ [send_entry (target_endian K) aid data sid pp opts (sv_inner v) (scast ret)]"
    by (auto simp: syscall_def send_entry_def split: prod.splits)
  show ?thesis
  proof (cases "rd = Ready \<and> \<not> neg ret")
    case True
    show ?thesis
      by (rule sent [of "scast ret"]) (use True assms p c t1 t2 in \<open>auto simp: server_send_with_turn_def Let_def\<close>)
  next
    case False
    show ?thesis
      by (rule idle; cases rd)
        (use False assms p c t1 t2 in \<open>auto simp: server_send_with_turn_def Let_def taken_send_entry split: if_splits\<close>)
  qed
qed

definition server_accepted :: "SctpServer \<times> 'w sys \<Rightarrow> call list" where
  "server_accepted vs = filter taken (trace (snd vs))"

interpretation server_send: send_loop "server_send_with_turn K aid data sid pp opts" fst server_accepted
  "\<lambda>v. send_entry (target_endian K) aid data sid pp opts (sv_inner v)" for K aid data sid pp opts
proof
  fix vs vs' :: "SctpServer \<times> 'a sys"
  obtain v s where vs: "vs = (v, s)" by (cases vs)
  obtain v' s' where vs': "vs' = (v', s')" by (cases vs')
  obtain t b u where turn: "server_send_with_turn K aid data sid pp opts vs = (t, b, u)" by (metis surj_pair)
  note turn' = turn [unfolded vs]
  note c = server_send_with_turn_cases [OF turn']
  show "fst (server_send_with_turn K aid data sid pp opts vs) \<noteq> Panicked"
    by (rule c) (auto simp: turn)
  show "fst (snd (server_send_with_turn K aid data sid pp opts vs)) = fst vs"
    by (rule c) (simp_all add: vs turn')
  show "server_send_with_turn K aid data sid pp opts vs = (Again, vs') \<Longrightarrow> server_accepted vs' = server_accepted vs"
    by (rule c) (auto simp: vs vs' turn' server_accepted_def)
  show "server_send_with_turn K aid data sid pp opts vs = (Return (Inl e), vs') \<Longrightarrow> server_accepted vs' = server_accepted vs" for e
    by (rule c) (auto simp: vs vs' turn' server_accepted_def)
  show "server_send_with_turn K aid data sid pp opts vs = (Return (Inr n), vs') \<Longrightarrow> server_accepted vs' =
      server_accepted vs @ [send_entry (target_endian K) aid data sid pp opts (sv_inner (fst vs)) n]" for n
    by (rule c) (auto simp: vs vs' turn' server_accepted_def taken_send_entry)
qed

section \<open>Properties\<close>

text \<open>
  The receives of a server are cancel-safe. Take any number of calls of \<open>recv\<close>, each polled any
  number of times and dropped if it then still waits. The messages and notifications they return, in
  order, are exactly what the accumulator makes of the chunks the kernel delivered meanwhile; what is
  not complete yet is in the accumulator for the next call; no call panics.
\<close>

lemma server_recv_cancel_safe:
  assumes "recvmsg_ok K" and "reassembly_inv (sv_recv_state v)"
    and "receives (server_recv_turn K) ns (v, s) = (rs, v', s')"
  shows "\<exists>k ts cs. k \<le> sum_list ns \<and> session (server_recv_turn K) (server_chunks K) k (v, s) = (ts, cs, v', s')
    \<and> Panicked \<notin> set ts \<and> rs = List.map_filter returned ts
    \<and> List.map_filter ok_result rs
      = List.map_filter server_step_result (fst (feed (push_input (target_endian K)) (buf (sv_recv_state v)) cs))
    \<and> buf (sv_recv_state v') = snd (feed (push_input (target_endian K)) (buf (sv_recv_state v)) cs)
    \<and> reassembly_inv (sv_recv_state v')"
  using server_recv.receives_exact [of K "(v, s)" ns rs "(v', s')"] assms
  by (simp add: server_inv_def server_acc_def)

definition sample_server :: SctpServer where
  "sample_server = \<lparr>sv_inner = 3, sv_recv_state = default_Reassembly\<rparr>"

text \<open>
  C13: a server sends a message whole and once, or not at all, and to the association it was given: the
  messages the kernel has taken on account of \<open>send_with\<close> are exactly one when it returns a length, with
  the caller's data, stream, lifetime and association, all the flags of the options although the field
  is narrower, and the protocol identifier in network order; and none when it returns an error or waits.
\<close>

theorem server_send_exactly_once:
  assumes "server_send_with K n aid data sid pp opts (v, s) = (r, v', s')"
  shows "\<exists>sinfo. r \<noteq> Panicked \<and> v' = v \<and> filter taken (trace s') = filter taken (trace s) @ (case r of
       Return (Inr m) \<Rightarrow> [Call_send (sv_inner v) data sinfo 0 (ucast m)] | _ \<Rightarrow> [])
    \<and> sinfo_assoc_id sinfo = aid \<and> sinfo_stream sinfo = sid \<and> sinfo_timetolive sinfo = ttl_ms opts
    \<and> ucast (sinfo_flags sinfo) = opts_sinfo_flags opts
    \<and> ne_bytes (target_endian K) 4 (sinfo_ppid sinfo) = be_bytes 4 pp"
proof (intro exI conjI)
  let ?i = "server_sinfo (target_endian K) aid sid pp opts"
  show "r \<noteq> Panicked" "v' = v" "filter taken (trace s') = filter taken (trace s) @ (case r of
       Return (Inr m) \<Rightarrow> [Call_send (sv_inner v) data ?i 0 (ucast m)] | _ \<Rightarrow> [])"
    using server_send.run_accepted [OF assms [unfolded server_send_with_def]]
    by (auto simp: server_accepted_def send_entry_def split: turn.splits sum.splits)
  show "sinfo_assoc_id ?i = aid" "sinfo_stream ?i = sid" "sinfo_timetolive ?i = ttl_ms opts"
    by (simp_all add: server_sinfo_def)
  have "sinfo_ppid ?i = to_be (target_endian K) 4 pp" by (simp add: server_sinfo_def)
  then show "ne_bytes (target_endian K) 4 (sinfo_ppid ?i) = be_bytes 4 pp"
    by (simp only:) (rule ne_bytes_to_be, simp)
  show "ucast (sinfo_flags ?i) = opts_sinfo_flags opts"
    by (simp add: server_sinfo_def opts_sinfo_flags_u16)
qed

theorem server_send_exactly_once_witness:
  "\<exists>s' sinfo. server_send_with sample_kernel 2 9 [1, 2, 3] 5 46 default_SendOptions (sample_server, sample_sys [] 1) =
      (Return (Inr 3), sample_server, s')
    \<and> filter taken (trace s') = [Call_send 3 [1, 2, 3] sinfo 0 3] \<and> sinfo_assoc_id sinfo = 9"
proof -
  obtain s' where c: "server_send_with sample_kernel 2 9 [1, 2, 3] 5 46 default_SendOptions
      (sample_server, sample_sys [] 1) = (Return (Inr 3), sample_server, s')"
    by (simp add: server_send_with_def server_send_with_turn_def poll_ready_def syscall_def sample_defs
        sample_server_def neg_def numeral_2_eq_2)
  have "trace (sample_sys [] 1) = []" "sv_inner sample_server = 3" by (simp_all add: sample_sys_def sample_server_def)
  with server_send_exactly_once [OF c] c show ?thesis by auto
qed

text \<open>
  C27: binding a listener or a server, its descriptor. A bind that succeeds leaves exactly one descriptor
  open more than before, that of the listener or server. If the registration with the reactor does not
  fail, a bind that fails, at the socket, an option, the events, the bind of any address, the listen or
  the non-blocking mode, leaves every descriptor as it was: nothing leaks and nothing is closed twice.
\<close>

theorem bind_descriptors:
  assumes "registers K"
    and "listener_bind_multi_with K addrs config s = (r, s1)" and "server_bind_multi_with K addrs config s = (q, s2)"
  shows "balance d (trace s1) = balance d (trace s) + (case r of Inl e \<Rightarrow> 0 | Inr l \<Rightarrow> if d = l_inner l then 1 else 0)
    \<and> balance d (trace s2) = balance d (trace s) + (case q of Inl e \<Rightarrow> 0 | Inr v \<Rightarrow> if d = sv_inner v then 1 else 0)"
  using listener_bind_balance [OF assms(1,2)] server_bind_balance [OF assms(1,3)] by simp

theorem bind_descriptors_witness:
  "\<exists>r s1 q s2. listener_bind_multi_with calm_kernel [V4 1 80] cfg_new (sample_sys [] 0) = (Inr r, s1)
    \<and> server_bind_multi_with calm_kernel [V4 1 80] cfg_new (sample_sys [] 0) = (Inr q, s2)
    \<and> balance (l_inner r) (trace s1) = 1 \<and> balance (sv_inner q) (trace s2) = 1"
proof -
  have k: "k_socket calm_kernel = k_socket sample_kernel" "k_fcntl calm_kernel = k_fcntl sample_kernel"
    "k_setsockopt calm_kernel = k_setsockopt sample_kernel" "k_bind calm_kernel = k_bind sample_kernel"
    "k_listen calm_kernel = k_listen sample_kernel" "k_register calm_kernel = (\<lambda>_ w. (Inr (), w))"
    "AF_INET calm_kernel = 2" "AF_INET6 calm_kernel = 10"
    by (simp_all add: calm_kernel_def sample_calls)
  obtain s1 where c1: "listener_bind_multi_with calm_kernel [V4 1 80] cfg_new (sample_sys [] 0) = (Inr \<lparr>l_inner = 3\<rparr>, s1)"
    by (cases "to_raw calm_kernel (V4 1 80)") (simp add: bind_eval k)
  obtain s2 where c2: "server_bind_multi_with calm_kernel [V4 1 80] cfg_new (sample_sys [] 0) =
      (Inr \<lparr>sv_inner = 3, sv_recv_state = default_Reassembly\<rparr>, s2)"
    by (cases "to_raw calm_kernel (V4 1 80)")
      (simp add: bind_eval server_bind_multi_with_def server_bind_impl_def server_setup_def k)
  from bind_descriptors [OF calm_registers c1 c2, of 3] c1 c2 show ?thesis
    by (auto simp: sample_sys_def)
qed

text \<open>
  C35: when the registration of a listener or of a server with the reactor fails, its descriptor is closed
  twice: the socket object that the failed registration drops closes it, and \<open>bind_impl\<close> closes it again.
  Between the two another thread can have been given the same number.
\<close>

theorem bind_closes_twice:
  "(listener_bind_multi_with K addrs config s = (Inl e, s') \<or> server_bind_multi_with K addrs config s = (Inl e, s'))
   \<and> Call_register fd \<in> set (new_calls s s') \<longrightarrow>
   (\<exists>tr. trace s' = trace s @ tr @ [Call_register fd, Call_close fd, Call_close fd])
    \<and> balance fd (trace s') = balance fd (trace s) - 1"
  using listener_bind_double_close server_bind_double_close by blast

theorem bind_closes_twice_witness:
  "\<exists>s' tr. server_bind_multi_with sample_kernel [V4 1 80] cfg_new sample_unregistered = (Inl (Io (Os 24)), s')
    \<and> trace s' = tr @ [Call_register 3, Call_close 3, Call_close 3]"
proof -
  obtain s' where c: "server_bind_multi_with sample_kernel [V4 1 80] cfg_new sample_unregistered = (Inl (Io (Os 24)), s')"
    and m: "Call_register 3 \<in> set (new_calls sample_unregistered s')"
    by (cases "to_raw sample_kernel (V4 1 80)")
      (simp add: bind_eval server_bind_multi_with_def server_bind_impl_def server_setup_def sample_unregistered_def new_calls_def)
  from bind_closes_twice [of sample_kernel "[V4 1 80]" cfg_new sample_unregistered "Io (Os 24)" s' 3] c m show ?thesis
    by (auto simp: sample_unregistered_def sample_sys_def)
qed

text \<open>
  C39: peeling off, its descriptors, in every case. When the kernel's \<open>sctp_peeloff\<close> refuses, every
  descriptor is as it was. When it gives one and this cannot be made non-blocking or subscribed to its
  events, \<open>peeloff\<close> returns that error and the descriptor stays open with nobody to own it. When it is
  set up but the registration with the reactor fails, it has been closed again and every descriptor is as
  it was; otherwise the association returned is fresh and its descriptor, the new one, is the only one open
  once more.
\<close>

theorem peeloff_descriptors:
  assumes "peeloff K v aid s = (r, s')" and "k_peeloff K (sv_inner v) aid (kern s) = (fd, w)"
  shows "if neg fd then r = Inl (Io (Os (k_errno K w))) \<and> (\<forall>d. balance d (trace s') = balance d (trace s))
    else case and_then (set_nonblocking K fd) (\<lambda>_. configure_events K fd)
           \<lparr>kern = w, trace = trace s @ [Call_peeloff (sv_inner v) aid fd]\<rparr> of
      (Inl e, _) \<Rightarrow> r = Inl e \<and> (\<forall>d. balance d (trace s') = balance d (trace s) + (if d = fd then 1 else 0))
    | (Inr _, s2) \<Rightarrow> (case fst (k_register K fd (kern s2)) of
          Inl e \<Rightarrow> r = Inl (Io e) \<and> (\<forall>d. balance d (trace s') = balance d (trace s))
        | Inr _ \<Rightarrow> r = Inr (new_association fd)
            \<and> (\<forall>d. balance d (trace s') = balance d (trace s) + (if d = fd then 1 else 0)))"
proof -
  let ?s1 = "\<lparr>kern = w, trace = trace s @ [Call_peeloff (sv_inner v) aid fd]\<rparr>"
  have p: "(if neg fd then (Inl (Io (Os (k_errno K w))), ?s1) else from_raw_fd K fd ?s1) = (r, s')"
    using assms by (simp add: peeloff_def and_then_def checked_def check_ret_def syscall_def last_os_error_def prog_apply
        split: if_splits)
  have b: "balance d (trace ?s1) = balance d (trace s) + (if d = fd \<and> \<not> neg fd then 1 else 0)" for d
    by (auto simp: balance_Cons)
  show ?thesis
  proof (cases "neg fd")
    case False
    with p have "from_raw_fd K fd ?s1 = (r, s')" by simp
    then show ?thesis
      by (cases rule: from_raw_fd_exact) (use b False in auto)
  qed (use p b in auto)
qed

text \<open>A kernel on which the events of a socket cannot be subscribed to.\<close>

definition deaf_kernel :: "sample_world kernel" where
  "deaf_kernel = sample_kernel\<lparr>k_setsockopt := (\<lambda>_ _ _ _ w. (-1, w\<lparr>err_no := 22\<rparr>))\<rparr>"

theorem peeloff_descriptors_witness:
  "\<exists>s' s''. peeloff sample_kernel sample_server 9 (sample_sys [] 0) = (Inr (new_association 5), s') \<and> balance 5 (trace s') = 1
    \<and> peeloff deaf_kernel sample_server 9 (sample_sys [] 0) = (Inl (Io (Os 22)), s'') \<and> balance 5 (trace s'') = 1"
proof -
  have k: "k_peeloff deaf_kernel = k_peeloff sample_kernel" "k_fcntl deaf_kernel = k_fcntl sample_kernel"
    "k_setsockopt deaf_kernel = (\<lambda>_ _ _ _ w. (-1, w\<lparr>err_no := 22\<rparr>))" "k_errno deaf_kernel = err_no"
    by (simp_all add: deaf_kernel_def sample_calls)
  obtain r s' where c: "peeloff sample_kernel sample_server 9 (sample_sys [] 0) = (r, s')" by fastforce
  obtain q s'' where d: "peeloff deaf_kernel sample_server 9 (sample_sys [] 0) = (q, s'')" by fastforce
  have w: "k_peeloff sample_kernel (sv_inner sample_server) 9 (kern (sample_sys [] 0)) = (5, kern (sample_sys [] 0))"
    "k_peeloff deaf_kernel (sv_inner sample_server) 9 (kern (sample_sys [] 0)) = (5, kern (sample_sys [] 0))"
    by (simp_all add: k sample_calls)
  from peeloff_descriptors [OF c w(1)] have "r = Inr (new_association 5) \<and> balance 5 (trace s') = 1"
    by (simp add: bind_eval)
  moreover from peeloff_descriptors [OF d w(2)] have "q = Inl (Io (Os 22)) \<and> balance 5 (trace s'') = 1"
    by (simp add: bind_eval k last_os_error_def)
  ultimately show ?thesis using c d by blast
qed

end
