(* ===== verification/Interleave.thy ===== *)
theory Interleave
  imports Main "HOL-Library.Multiset"
begin

text \<open>
  Tasks that share a socket. A task is a future that has been started; it advances by one atomic action at
  a time, and the actions of different tasks interleave in any order. A future can be dropped only where it
  awaits. Between the actions the rest of the world changes as it likes. The log collects what the kernel
  has delivered, in order.
\<close>

inductive interleaves :: "('t \<Rightarrow> 's \<Rightarrow> 't \<times> 's) \<Rightarrow> ('t \<Rightarrow> 's \<Rightarrow> 'l list) \<Rightarrow> ('t \<Rightarrow> bool) \<Rightarrow> ('t \<Rightarrow> bool) \<Rightarrow> 't \<Rightarrow>
    ('s \<Rightarrow> 's \<Rightarrow> bool) \<Rightarrow> 's \<Rightarrow> 't list \<Rightarrow> 's \<Rightarrow> 'l list \<Rightarrow> bool"
  for advance delivered fresh awaits dropped env s0 where
  start: "interleaves advance delivered fresh awaits dropped env s0 [] s0 []"
| spawn: "interleaves advance delivered fresh awaits dropped env s0 ts s cs \<Longrightarrow> fresh t \<Longrightarrow>
    interleaves advance delivered fresh awaits dropped env s0 (ts @ [t]) s cs"
| act: "interleaves advance delivered fresh awaits dropped env s0 ts s cs \<Longrightarrow> i < length ts \<Longrightarrow>
    advance (ts ! i) s = (t, s') \<Longrightarrow>
    interleaves advance delivered fresh awaits dropped env s0 (ts[i := t]) s' (cs @ delivered (ts ! i) s)"
| cancel: "interleaves advance delivered fresh awaits dropped env s0 ts s cs \<Longrightarrow> i < length ts \<Longrightarrow> awaits (ts ! i) \<Longrightarrow>
    interleaves advance delivered fresh awaits dropped env s0 (ts[i := dropped]) s cs"
| world: "interleaves advance delivered fresh awaits dropped env s0 ts s cs \<Longrightarrow> env s s' \<Longrightarrow>
    interleaves advance delivered fresh awaits dropped env s0 ts s' cs"

text \<open>What the tasks hold together, when one of them changes.\<close>

lemma sum_credit_update:
  "i < length ts \<Longrightarrow>
   (\<Sum>t \<leftarrow> ts[i := t']. credit t) + credit (ts ! i) = (\<Sum>t \<leftarrow> ts. credit t) + (credit t' :: 'm::comm_monoid_add)"
proof (induction ts arbitrary: i)
  case (Cons a ts)
  show ?case
  proof (cases i)
    case (Suc j)
    with Cons.IH [of j] Cons.prems show ?thesis by (simp add: ac_simps)
  qed (simp add: ac_simps)
qed simp

text \<open>
  The contract of a shared object, a socket or a counter. \<open>made\<close> is what the object has turned out so far, as
  far as the state and the log tell; \<open>credit\<close> is what a task has been given of it. Each action hands over
  exactly what it makes, and a task that can be dropped holds nothing. Both are elements of a monoid:
  multisets of records or of messages, or numbers of bytes.
\<close>

locale shared_socket =
  fixes advance :: "'t \<Rightarrow> 's \<Rightarrow> 't \<times> 's"
    and delivered :: "'t \<Rightarrow> 's \<Rightarrow> 'l list"
    and fresh :: "'t \<Rightarrow> bool"
    and awaits :: "'t \<Rightarrow> bool"
    and dropped :: 't
    and env :: "'s \<Rightarrow> 's \<Rightarrow> bool"
    and inv :: "'s \<Rightarrow> 'l list \<Rightarrow> bool"
    and made :: "'s \<Rightarrow> 'l list \<Rightarrow> 'm::cancel_comm_monoid_add"
    and credit :: "'t \<Rightarrow> 'm"
    and sane :: "'t \<Rightarrow> bool"
  assumes advance_hands_over: "inv s cs \<Longrightarrow> sane t \<Longrightarrow> advance t s = (t', s') \<Longrightarrow>
      inv s' (cs @ delivered t s) \<and> sane t' \<and> made s' (cs @ delivered t s) + credit t = made s cs + credit t'"
    and fresh_holds_nothing: "fresh t \<Longrightarrow> credit t = 0 \<and> sane t"
    and awaits_holds_nothing: "awaits t \<Longrightarrow> credit t = 0"
    and dropped_holds_nothing: "credit dropped = 0" "sane dropped"
    and env_keeps: "env s s' \<Longrightarrow> inv s cs \<Longrightarrow> inv s' cs \<and> made s' cs = made s cs"
begin

lemma ledger:
  assumes "interleaves advance delivered fresh awaits dropped env s0 ts s cs" and "inv s0 []"
  shows "inv s cs \<and> (\<forall>t \<in> set ts. sane t) \<and> made s cs = made s0 [] + (\<Sum>t \<leftarrow> ts. credit t)"
  using assms
proof (induction rule: interleaves.induct)
  case start
  then show ?case by simp
next
  case (spawn ts s cs t)
  then show ?case using fresh_holds_nothing [of t] by auto
next
  case (act ts s cs i t s')
  then have IH: "inv s cs" "\<forall>t \<in> set ts. sane t" "made s cs = made s0 [] + (\<Sum>t \<leftarrow> ts. credit t)" by simp_all
  note step = advance_hands_over [OF IH(1) _ act.hyps(3)]
  have "made s' (cs @ delivered (ts ! i) s) + credit (ts ! i) = made s0 [] + (\<Sum>t \<leftarrow> ts[i := t]. credit t) + credit (ts ! i)"
    using step IH act.hyps(2) sum_credit_update [of i ts credit t] by (simp add: ac_simps)
  then have "made s' (cs @ delivered (ts ! i) s) = made s0 [] + (\<Sum>t \<leftarrow> ts[i := t]. credit t)"
    by (rule add_right_imp_eq)
  with step IH act.hyps(2) show ?case by (auto dest!: set_update_subset_insert [THEN subsetD])
next
  case (cancel ts s cs i)
  with sum_credit_update [of i ts credit dropped] awaits_holds_nothing [of "ts ! i"] dropped_holds_nothing
  show ?case by (auto dest!: set_update_subset_insert [THEN subsetD])
next
  case (world ts s cs s')
  then show ?case using env_keeps by simp
qed

end

section \<open>Taking turns\<close>

text \<open>
  The same with a discipline on what runs at the same time: a task starts only when none that clashes with
  it is there. A program that receives in one task and sends in another keeps to it.
\<close>

inductive takes_turns :: "('t \<Rightarrow> 's \<Rightarrow> 't \<times> 's) \<Rightarrow> ('t \<Rightarrow> 's \<Rightarrow> 'l list) \<Rightarrow> ('t \<Rightarrow> bool) \<Rightarrow> ('t \<Rightarrow> bool) \<Rightarrow> 't \<Rightarrow>
    ('s \<Rightarrow> 's \<Rightarrow> bool) \<Rightarrow> ('t \<Rightarrow> 't \<Rightarrow> bool) \<Rightarrow> 's \<Rightarrow> 't list \<Rightarrow> 's \<Rightarrow> 'l list \<Rightarrow> bool"
  for advance delivered fresh awaits dropped env clash s0 where
  start: "takes_turns advance delivered fresh awaits dropped env clash s0 [] s0 []"
| spawn: "takes_turns advance delivered fresh awaits dropped env clash s0 ts s cs \<Longrightarrow> fresh t \<Longrightarrow>
    list_all (\<lambda>u. \<not> clash u t) ts \<Longrightarrow>
    takes_turns advance delivered fresh awaits dropped env clash s0 (ts @ [t]) s cs"
| act: "takes_turns advance delivered fresh awaits dropped env clash s0 ts s cs \<Longrightarrow> i < length ts \<Longrightarrow>
    advance (ts ! i) s = (t, s') \<Longrightarrow>
    takes_turns advance delivered fresh awaits dropped env clash s0 (ts[i := t]) s' (cs @ delivered (ts ! i) s)"
| cancel: "takes_turns advance delivered fresh awaits dropped env clash s0 ts s cs \<Longrightarrow> i < length ts \<Longrightarrow> awaits (ts ! i) \<Longrightarrow>
    takes_turns advance delivered fresh awaits dropped env clash s0 (ts[i := dropped]) s cs"
| world: "takes_turns advance delivered fresh awaits dropped env clash s0 ts s cs \<Longrightarrow> env s s' \<Longrightarrow>
    takes_turns advance delivered fresh awaits dropped env clash s0 ts s' cs"

lemma takes_turns_interleaves:
  "takes_turns advance delivered fresh awaits dropped env clash s0 ts s cs \<Longrightarrow>
   interleaves advance delivered fresh awaits dropped env s0 ts s cs"
  by (induction rule: takes_turns.induct) (auto intro: interleaves.intros)

fun opt_list :: "'a option \<Rightarrow> 'a list" where
  "opt_list None = []"
| "opt_list (Some x) = [x]"

lemma map_filter_eqI: "map f xs = map f ys \<Longrightarrow> List.map_filter f xs = List.map_filter f ys"
proof -
  have "List.map_filter f zs = List.map_filter id (map f zs)" for zs by (simp add: map_filter_def filter_map comp_def)
  then show "map f xs = map f ys \<Longrightarrow> List.map_filter f xs = List.map_filter f ys" by simp
qed

text \<open>The last task that holds something, when it changes.\<close>

lemma map_filter_update_last:
  assumes "i < length ts" and "\<And>j. i < j \<Longrightarrow> j < length ts \<Longrightarrow> f (ts ! j) = None"
  shows "List.map_filter f (ts[i := t]) = List.map_filter f (take i ts) @ opt_list (f t)"
    and "List.map_filter f ts = List.map_filter f (take i ts) @ opt_list (f (ts ! i))"
proof -
  have none: "List.map_filter f (drop (Suc i) ts) = []"
    using assms by (auto simp: map_filter_def filter_empty_conv in_set_conv_nth)
  have one: "List.map_filter f [u] = opt_list (f u)" for u by (cases "f u") (simp_all add: List.map_filter_simps)
  have app: "List.map_filter f (xs @ ys) = List.map_filter f xs @ List.map_filter f ys" for xs ys
    by (simp add: map_filter_def)
  have "ts[i := t] = take i ts @ [t] @ drop (Suc i) ts" using assms(1) by (simp add: upd_conv_take_nth_drop)
  then show "List.map_filter f (ts[i := t]) = List.map_filter f (take i ts) @ opt_list (f t)"
    by (simp only: app none one) simp
  have "ts = take i ts @ [ts ! i] @ drop (Suc i) ts" using assms(1) by (simp add: id_take_nth_drop)
  then show "List.map_filter f ts = List.map_filter f (take i ts) @ opt_list (f (ts ! i))"
    by (metis app none one append_Nil2)
qed

text \<open>Behind an active task no task holds anything and none is active.\<close>

definition tail_empty :: "('t \<Rightarrow> bool) \<Rightarrow> ('t \<Rightarrow> 'x option) \<Rightarrow> 't list \<Rightarrow> bool" where
  "tail_empty active credit ts \<longleftrightarrow> (\<forall>i j. i < j \<longrightarrow> j < length ts \<longrightarrow> active (ts ! i) \<longrightarrow>
     credit (ts ! j) = None \<and> \<not> active (ts ! j))"

lemma tail_empty_append:
  assumes "tail_empty active credit ts" and "credit t = None" and "\<And>u. u \<in> set ts \<Longrightarrow> active u \<Longrightarrow> \<not> active t"
  shows "tail_empty active credit (ts @ [t])"
  using assms unfolding tail_empty_def by (auto simp: nth_append less_Suc_eq dest: nth_mem)

lemma tail_empty_update:
  assumes "tail_empty active credit ts" and "i < length ts" and "active t \<Longrightarrow> active (ts ! i)"
    and "\<not> active (ts ! i) \<Longrightarrow> credit t = credit (ts ! i)"
  shows "tail_empty active credit (ts[i := t])"
  unfolding tail_empty_def
proof (intro allI impI)
  fix k j
  assume k: "k < j" "j < length (ts[i := t])" "active (ts[i := t] ! k)"
  then have "active (ts ! k)" using assms(2,3) by (cases "k = i") auto
  then have j: "credit (ts ! j) = None" "\<not> active (ts ! j)" using assms(1) k unfolding tail_empty_def by auto
  then show "credit (ts[i := t] ! j) = None \<and> \<not> active (ts[i := t] ! j)"
    using assms(3,4) k(2) by (cases "j = i") auto
qed

text \<open>
  The contract of a shared object with one active user at a time: \<open>active\<close> are the unfinished tasks of one
  kind, of which no two are there together. What the object makes and what the tasks hold are lists.
\<close>

locale ordered_socket =
  fixes advance :: "'t \<Rightarrow> 's \<Rightarrow> 't \<times> 's"
    and delivered :: "'t \<Rightarrow> 's \<Rightarrow> 'l list"
    and fresh :: "'t \<Rightarrow> bool"
    and awaits :: "'t \<Rightarrow> bool"
    and dropped :: 't
    and env :: "'s \<Rightarrow> 's \<Rightarrow> bool"
    and clash :: "'t \<Rightarrow> 't \<Rightarrow> bool"
    and active :: "'t \<Rightarrow> bool"
    and inv :: "'s \<Rightarrow> 'l list \<Rightarrow> bool"
    and made :: "'s \<Rightarrow> 'l list \<Rightarrow> 'x list"
    and credit :: "'t \<Rightarrow> 'x option"
  assumes active_hands_over: "inv s cs \<Longrightarrow> active t \<Longrightarrow> advance t s = (t', s') \<Longrightarrow>
      inv s' (cs @ delivered t s) \<and> made s' (cs @ delivered t s) @ opt_list (credit t) = made s cs @ opt_list (credit t')"
    and other_keeps: "inv s cs \<Longrightarrow> \<not> active t \<Longrightarrow> advance t s = (t', s') \<Longrightarrow>
      inv s' (cs @ delivered t s) \<and> made s' (cs @ delivered t s) = made s cs \<and> credit t' = credit t \<and> \<not> active t'"
    and fresh_holds_nothing: "fresh t \<Longrightarrow> credit t = None"
    and actives_clash: "active u \<Longrightarrow> fresh t \<Longrightarrow> active t \<Longrightarrow> clash u t"
    and awaits_holds_nothing: "awaits t \<Longrightarrow> credit t = None"
    and dropped_holds_nothing: "credit dropped = None" "\<not> active dropped"
    and env_keeps: "env s s' \<Longrightarrow> inv s cs \<Longrightarrow> inv s' cs \<and> made s' cs = made s cs"
begin

lemma in_order:
  assumes "takes_turns advance delivered fresh awaits dropped env clash s0 ts s cs" and "inv s0 []"
  shows "inv s cs \<and> tail_empty active credit ts \<and> made s cs = made s0 [] @ List.map_filter credit ts"
  using assms
proof (induction rule: takes_turns.induct)
  case start
  then show ?case by (simp add: tail_empty_def List.map_filter_simps)
next
  case (spawn ts s cs t)
  then have "tail_empty active credit (ts @ [t])"
    using actives_clash [of _ t] fresh_holds_nothing [of t] by (intro tail_empty_append) (auto simp: list_all_iff)
  with spawn fresh_holds_nothing [of t] show ?case by (simp add: map_filter_def)
next
  case (act ts s cs i t s')
  then have IH: "inv s cs" "tail_empty active credit ts" "made s cs = made s0 [] @ List.map_filter credit ts" by simp_all
  show ?case
  proof (cases "active (ts ! i)")
    case True
    note h = active_hands_over [OF IH(1) True act.hyps(3)]
    have none: "\<And>j. i < j \<Longrightarrow> j < length ts \<Longrightarrow> credit (ts ! j) = None" using IH(2) True by (auto simp: tail_empty_def)
    note u = map_filter_update_last [where f = credit, OF act.hyps(2) none]
    have "made s' (cs @ delivered (ts ! i) s) = made s0 [] @ List.map_filter credit (ts[i := t])"
      using h IH(3) u by (cases "credit (ts ! i)"; cases "credit t") (simp_all flip: append_assoc)
    with h tail_empty_update [OF IH(2) act.hyps(2)] True show ?thesis by simp
  next
    case False
    note h = other_keeps [OF IH(1) False act.hyps(3)]
    have "map credit (ts[i := t]) = map credit ts" using h act.hyps(2) by (metis list_update_id map_update)
    then have "List.map_filter credit (ts[i := t]) = List.map_filter credit ts" by (rule map_filter_eqI)
    with h IH tail_empty_update [OF IH(2) act.hyps(2), of t] show ?thesis by simp
  qed
next
  case (cancel ts s cs i)
  have "map credit (ts[i := dropped]) = map credit ts"
    using cancel.hyps(2,3) awaits_holds_nothing dropped_holds_nothing by (metis list_update_id map_update)
  then have "List.map_filter credit (ts[i := dropped]) = List.map_filter credit ts" by (rule map_filter_eqI)
  with cancel tail_empty_update [of active credit ts i dropped] dropped_holds_nothing awaits_holds_nothing show ?case by auto
next
  case (world ts s cs s')
  then show ?case using env_keeps by simp
qed

end

end
