(* ===== verification/Tasks.thy ===== *)
theory Tasks
  imports Interleave Assoc_Recv Assoc_Send
begin

text \<open>
  Tasks that use one association at the same time: \<open>recv_msg\<close> and \<open>send_with\<close> of \<open>src/association.rs\<close> cut
  at the points where another thread can come between: the await, the receive under the lock of the
  accumulator, the look at \<open>ended\<close>, its closing, the clearing of the readiness, and the send. The turns of
  \<open>Association\<close> are these actions in one go.
\<close>

section \<open>The actions\<close>

type_synonym message = "bytes \<times> u16 \<times> u32 \<times> SendOptions"

datatype task =
    RecvAwait  \<comment> \<open>at \<open>readable().await\<close>\<close>
  | RecvGuard  \<comment> \<open>with the guard, before the lock\<close>
  | Stepped Step  \<comment> \<open>with the outcome of \<open>recv_step\<close>\<close>
  | RecvClear  \<comment> \<open>before \<open>clear_ready\<close>\<close>
  | Received "SctpError + RecvResult"
  | SendAwait message  \<comment> \<open>at the \<open>select!\<close>\<close>
  | SendCheck message  \<comment> \<open>not ready, before \<open>ended.acquire()\<close>\<close>
  | SendGuard message
  | SendClear message
  | Sent message "SctpError + usize"
  | Dropped
  | TaskPanicked

definition recv_under_lock :: "('w, 'x) kernel_scheme \<Rightarrow> SctpAssociation \<times> 'w sys \<Rightarrow> task \<times> SctpAssociation \<times> 'w sys" where
  "recv_under_lock K = (\<lambda>(a, s). case recv_step K (inner a) False (recv_state a) s of (st, r, s') \<Rightarrow>
     ((case st of None \<Rightarrow> TaskPanicked | Some step \<Rightarrow> Stepped step), a\<lparr>recv_state := r\<rparr>, s'))"

definition recv_outcome :: "Step \<Rightarrow> SctpAssociation \<times> 'w sys \<Rightarrow> task \<times> SctpAssociation \<times> 'w sys" where
  "recv_outcome step = (\<lambda>(a, s). case step of
     WouldBlock \<Rightarrow> (if ended a then Received (Inl NotConnected) else RecvClear, a, s)
   | More \<Rightarrow> (RecvAwait, a, s)
   | StepNotification n \<Rightarrow> (Received (Inr (RecvNotification n)), if ends n then a\<lparr>ended := True\<rparr> else a, s)
   | Complete d info _ \<Rightarrow> (Received (Inr (Data d info)), a, s)
   | StepErr e \<Rightarrow> (Received (Inl e), a, s))"

fun send_under_guard :: "('w, 'x) kernel_scheme \<Rightarrow> message \<Rightarrow> SctpAssociation \<times> 'w sys \<Rightarrow> task \<times> SctpAssociation \<times> 'w sys" where
  "send_under_guard K (data, sid, pp, opts) (a, s) = (let fd = inner a;
       pp' = to_be (target_endian K) 4 pp; flags = opts_sinfo_flags opts in
     case syscall (Call_sendmsg fd data pp' flags sid (ttl_ms opts) 0) (k_sendmsg K fd data pp' flags sid (ttl_ms opts) 0) s of
       (ret, s') \<Rightarrow>
         if neg ret then
           (let er = last_os_error K s' in
            (if is_would_block K er then SendClear (data, sid, pp, opts) else Sent (data, sid, pp, opts) (Inl (Io er)), a, s'))
         else (Sent (data, sid, pp, opts) (Inr (scast ret)), a, s'))"

fun recv_advance :: "('w, 'x) kernel_scheme \<Rightarrow> task \<Rightarrow> SctpAssociation \<times> 'w sys \<Rightarrow> task \<times> SctpAssociation \<times> 'w sys" where
  "recv_advance K RecvAwait (a, s) = (case poll_ready K (inner a) READABLE s of
     (Ready, s') \<Rightarrow> (RecvGuard, a, s')
   | (NotReady, s') \<Rightarrow> (RecvAwait, a, s')
   | (ReadyErr e, s') \<Rightarrow> (Received (Inl (Io e)), a, s'))"
| "recv_advance K RecvGuard as = recv_under_lock K as"
| "recv_advance K (Stepped step) as = recv_outcome step as"
| "recv_advance K RecvClear (a, s) = (RecvAwait, a, clear_ready K (inner a) READABLE s)"
| "recv_advance K t as = (t, as)"

fun send_advance :: "('w, 'x) kernel_scheme \<Rightarrow> task \<Rightarrow> SctpAssociation \<times> 'w sys \<Rightarrow> task \<times> SctpAssociation \<times> 'w sys" where
  "send_advance K (SendAwait m) (a, s) = (case poll_ready K (inner a) WRITABLE_OR_ERROR s of
     (Ready, s') \<Rightarrow> (SendGuard m, a, s')
   | (NotReady, s') \<Rightarrow> (SendCheck m, a, s')
   | (ReadyErr e, s') \<Rightarrow> (Sent m (Inl (Io e)), a, s'))"
| "send_advance K (SendCheck m) (a, s) = (if ended a then Sent m (Inl NotConnected) else SendAwait m, a, s)"
| "send_advance K (SendGuard m) as = send_under_guard K m as"
| "send_advance K (SendClear m) (a, s) = (SendAwait m, a, clear_ready K (inner a) WRITABLE_OR_ERROR s)"
| "send_advance K t as = (t, as)"

definition advance :: "('w, 'x) kernel_scheme \<Rightarrow> task \<Rightarrow> SctpAssociation \<times> 'w sys \<Rightarrow> task \<times> SctpAssociation \<times> 'w sys" where
  "advance K t as = (case t of
     SendAwait m \<Rightarrow> send_advance K t as
   | SendCheck m \<Rightarrow> send_advance K t as
   | SendGuard m \<Rightarrow> send_advance K t as
   | SendClear m \<Rightarrow> send_advance K t as
   | _ \<Rightarrow> recv_advance K t as)"

lemma advance_simps [simp]:
  "advance K RecvAwait as = recv_advance K RecvAwait as" "advance K RecvGuard as = recv_under_lock K as"
  "advance K (Stepped step) as = recv_outcome step as" "advance K RecvClear as = recv_advance K RecvClear as"
  "advance K (Received r) as = (Received r, as)" "advance K (SendAwait m) as = send_advance K (SendAwait m) as"
  "advance K (SendCheck m) as = send_advance K (SendCheck m) as" "advance K (SendGuard m) as = send_under_guard K m as"
  "advance K (SendClear m) as = send_advance K (SendClear m) as" "advance K (Sent m q) as = (Sent m q, as)"
  "advance K Dropped as = (Dropped, as)" "advance K TaskPanicked as = (TaskPanicked, as)"
  by (simp_all add: advance_def)

text \<open>How a task starts, where it can be dropped, and what else can change: the world, never the trace.\<close>

fun starts :: "task \<Rightarrow> bool" where
  "starts RecvAwait \<longleftrightarrow> True"
| "starts (SendAwait m) \<longleftrightarrow> True"
| "starts _ \<longleftrightarrow> False"

fun elsewhere :: "'o \<times> 'w sys \<Rightarrow> 'o \<times> 'w sys \<Rightarrow> bool" where
  "elsewhere (a, s) (b, r) \<longleftrightarrow> b = a \<and> trace r = trace s"

text \<open>The chunk that an action takes from the kernel, if it takes one.\<close>

definition read_chunks :: "('w, 'x) kernel_scheme \<Rightarrow> i32 \<Rightarrow> bool \<Rightarrow> 'w sys \<Rightarrow> chunk list" where
  "read_chunks K fd want s = (let out = recv_answer K fd want s in
     if neg (ro_ret out) \<or> ro_ret out = 0 then [] else [answer_chunk K want out])"

fun task_chunks :: "('w, 'x) kernel_scheme \<Rightarrow> task \<Rightarrow> SctpAssociation \<times> 'w sys \<Rightarrow> chunk list" where
  "task_chunks K RecvGuard (a, s) = read_chunks K (inner a) False s"
| "task_chunks K _ _ = []"

text \<open>Any interleaving of receives and sends that start on the association, and the state it leads to.\<close>

abbreviation together :: "('w, 'x) kernel_scheme \<Rightarrow> SctpAssociation \<times> 'w sys \<Rightarrow> task list \<Rightarrow> SctpAssociation \<times> 'w sys \<Rightarrow>
    chunk list \<Rightarrow> bool" where
  "together K \<equiv> interleaves (advance K) (task_chunks K) starts starts Dropped elsewhere"

lemma act_at:
  "together K as0 ts as cs \<Longrightarrow> i < length ts \<Longrightarrow> ts ! i = t \<Longrightarrow> advance K t as = (t', as') \<Longrightarrow>
   together K as0 (ts[i := t']) as' (cs @ task_chunks K t as)"
  using interleaves.act by fastforce

section \<open>A turn is its actions in one go\<close>

fun turn_task :: "(SctpError + RecvResult) turn \<Rightarrow> task" where
  "turn_task (Return r) = Received r"
| "turn_task Again = RecvAwait"
| "turn_task Panicked = TaskPanicked"

fun go :: "('w, 'x) kernel_scheme \<Rightarrow> nat \<Rightarrow> task \<times> SctpAssociation \<times> 'w sys \<Rightarrow> task \<times> SctpAssociation \<times> 'w sys" where
  "go K 0 tas = tas"
| "go K (Suc n) (t, as) = go K n (advance K t as)"

lemma recv_msg_turn_actions:
  assumes "recv_msg_turn K (a, s) = (t, a', s')"
  shows "\<exists>n. 0 < n \<and> go K n (RecvAwait, a, s) = (turn_task t, a', s')"
proof -
  obtain rd s1 where p: "poll_ready K (inner a) READABLE s = (rd, s1)" by fastforce
  obtain st r s2 where st: "recv_step K (inner a) False (recv_state a) s1 = (st, r, s2)" by (metis surj_pair)
  note defs = recv_msg_turn_def recv_under_lock_def recv_outcome_def Let_def
  show ?thesis
  proof (cases "rd = Ready")
    case False
    with assms p show ?thesis by (intro exI [of _ "Suc 0"]) (cases rd; auto simp: defs)
  next
    case True
    show ?thesis
    proof (cases st)
      case None
      with assms p st True show ?thesis by (intro exI [of _ "Suc (Suc 0)"]) (auto simp: defs)
    next
      case (Some step)
      show ?thesis
      proof (cases "step = WouldBlock \<and> \<not> ended a")
        case True
        with assms p st \<open>rd = Ready\<close> Some show ?thesis
          by (intro exI [of _ "Suc (Suc (Suc (Suc 0)))"]) (auto simp: defs)
      next
        case False
        with assms p st True Some show ?thesis
          by (intro exI [of _ "Suc (Suc (Suc 0))"]) (cases step; auto simp: defs)
      qed
    qed
  qed
qed

section \<open>Every record goes to one receive\<close>

fun opt_mset :: "'a option \<Rightarrow> 'a multiset" where
  "opt_mset None = {#}"
| "opt_mset (Some x) = {#x#}"

lemma sum_opt_mset: "(\<Sum>t \<leftarrow> ts. opt_mset (f t)) = mset (List.map_filter f ts)"
proof (induction ts)
  case (Cons t ts)
  then show ?case by (cases "f t") (simp_all add: List.map_filter_simps)
qed (simp add: List.map_filter_simps)

text \<open>What a receive has been given: what it has returned, or is about to return.\<close>

fun task_result :: "task \<Rightarrow> RecvResult option" where
  "task_result (Stepped step) = step_result step"
| "task_result (Received (Inr x)) = Some x"
| "task_result _ = None"

lemma recv_step_feeds:
  assumes "recvmsg_ok K" and "reassembly_inv r" and "recv_step K fd want r s = (st, r', s')"
  obtains step where "st = Some step" "reassembly_inv r'"
    "buf r' = snd (feed (push_input (target_endian K)) (buf r) (read_chunks K fd want s))"
    "read_chunks K fd want s = [] \<and> (step = WouldBlock \<or> (\<exists>e. step = StepErr e))
     \<or> fst (feed (push_input (target_endian K)) (buf r) (read_chunks K fd want s)) = [step]"
  using recv_step_outcome [OF assms] by (cases st) (auto simp: read_chunks_def Let_def feed_one simp del: feed.simps(2) split: if_splits)

definition fed :: "('w, 'x) kernel_scheme \<Rightarrow> bytes \<Rightarrow> Reassembly \<Rightarrow> chunk list \<Rightarrow> bool" where
  "fed K b0 r cs \<longleftrightarrow> recvmsg_ok K \<and> reassembly_inv r \<and> buf r = snd (feed (push_input (target_endian K)) b0 cs)"

text \<open>A receive under the lock adds to the log what it takes, and to what has been made what it is given.\<close>

lemma fed_step:
  assumes "fed K b0 r cs" and "recv_step K fd want r s = (st, r', s')"
    and "report WouldBlock = None" and "\<And>e. report (StepErr e) = None"
  obtains step where "st = Some step" "fed K b0 r' (cs @ read_chunks K fd want s)"
    "List.map_filter report (fst (feed (push_input (target_endian K)) b0 (cs @ read_chunks K fd want s)))
     = List.map_filter report (fst (feed (push_input (target_endian K)) b0 cs)) @ List.map_filter report [step]"
proof -
  have ok: "recvmsg_ok K" "reassembly_inv r" and b: "buf r = snd (feed (push_input (target_endian K)) b0 cs)"
    using assms(1) by (simp_all add: fed_def)
  from ok assms(2) obtain step where s: "st = Some step" "reassembly_inv r'"
    "buf r' = snd (feed (push_input (target_endian K)) (buf r) (read_chunks K fd want s))"
    "read_chunks K fd want s = [] \<and> (step = WouldBlock \<or> (\<exists>e. step = StepErr e))
     \<or> fst (feed (push_input (target_endian K)) (buf r) (read_chunks K fd want s)) = [step]"
    by (rule recv_step_feeds)
  show ?thesis
  proof (rule that [OF s(1)])
    show "fed K b0 r' (cs @ read_chunks K fd want s)"
      using ok s(2,3) b by (simp add: fed_def feed_append split: prod.splits)
    show "List.map_filter report (fst (feed (push_input (target_endian K)) b0 (cs @ read_chunks K fd want s)))
     = List.map_filter report (fst (feed (push_input (target_endian K)) b0 cs)) @ List.map_filter report [step]"
      using s(4) b assms(3,4)
      by (auto simp: feed_append map_filter_append List.map_filter_simps split: prod.splits)
  qed
qed

lemma recv_task_ledger:
  assumes "fed K b0 (recv_state a) cs" and "advance K t (a, s) = (t', a', s')" and "t \<noteq> TaskPanicked"
  defines "out \<equiv> \<lambda>cs. List.map_filter step_result (fst (feed (push_input (target_endian K)) b0 cs))"
  shows "fed K b0 (recv_state a') (cs @ task_chunks K t (a, s)) \<and> t' \<noteq> TaskPanicked
    \<and> out (cs @ task_chunks K t (a, s)) @ opt_list (task_result t) = out cs @ opt_list (task_result t')"
proof (cases "t = RecvGuard")
  case True
  obtain st r s1 where step: "recv_step K (inner a) False (recv_state a) s = (st, r, s1)" by (metis surj_pair)
  obtain x where x: "st = Some x" "fed K b0 r (cs @ read_chunks K (inner a) False s)"
    "out (cs @ read_chunks K (inner a) False s) = out cs @ List.map_filter step_result [x]"
    using fed_step [where report = step_result, OF assms(1) step] by (auto simp: out_def)
  have "List.map_filter step_result [x] = opt_list (step_result x)"
    by (cases "step_result x") (simp_all add: List.map_filter_simps)
  with True assms(2) step x show ?thesis by (auto simp: recv_under_lock_def)
next
  case False
  then have no: "task_chunks K t (a, s) = []" by (cases t) simp_all
  show ?thesis
  proof (cases t)
    case (Stepped step)
    with assms(1,2) no show ?thesis by (cases step) (auto simp: recv_outcome_def split: if_splits)
  next
    case (SendGuard m)
    obtain d sid pp opts where "m = (d, sid, pp, opts)" by (cases m)
    with SendGuard assms(1,2) no show ?thesis by (auto simp: Let_def split: prod.splits if_splits)
  qed (use assms(1-3) no False in \<open>auto split: prod.splits readiness.splits if_splits\<close>)
qed

lemma mset_opt_list: "mset (xs @ opt_list q) = mset xs + opt_mset q"
  by (cases q) simp_all

interpretation shared_recv: shared_socket "advance K" "task_chunks K" starts starts Dropped elsewhere
  "\<lambda>(a, s). fed K b0 (recv_state a)"
  "\<lambda>_ cs. mset (List.map_filter step_result (fst (feed (push_input (target_endian K)) b0 cs)))"
  "\<lambda>t. opt_mset (task_result t)" "\<lambda>t. t \<noteq> TaskPanicked" for K b0
proof
  fix as as' :: "SctpAssociation \<times> 'a sys" and t t' cs
  let ?out = "\<lambda>cs. List.map_filter step_result (fst (feed (push_input (target_endian K)) b0 cs))"
  assume "(\<lambda>(a, s). fed K b0 (recv_state a)) as cs" and "advance K t as = (t', as')" and "t \<noteq> TaskPanicked"
  then show "(\<lambda>(a, s). fed K b0 (recv_state a)) as' (cs @ task_chunks K t as) \<and> t' \<noteq> TaskPanicked
    \<and> mset (?out (cs @ task_chunks K t as)) + opt_mset (task_result t) = mset (?out cs) + opt_mset (task_result t')"
    using recv_task_ledger [of K b0 "fst as" cs t "snd as" t' "fst as'" "snd as'"]
    by (cases as; cases as') (simp flip: mset_opt_list)
next
  show "elsewhere as as' \<Longrightarrow> (\<lambda>(a, s). fed K b0 (recv_state a)) as cs \<Longrightarrow> (\<lambda>(a, s). fed K b0 (recv_state a)) as' cs \<and>
      mset (List.map_filter step_result (fst (feed (push_input (target_endian K)) b0 cs)))
      = mset (List.map_filter step_result (fst (feed (push_input (target_endian K)) b0 cs)))"
    for as as' :: "SctpAssociation \<times> 'a sys" and cs
    by (cases as; cases as') simp
qed (auto elim: starts.elims)

section \<open>Every message is sent once\<close>

fun task_sent :: "endian \<Rightarrow> i32 \<Rightarrow> task \<Rightarrow> call option" where
  "task_sent e fd (Sent (data, sid, pp, opts) (Inr n)) = Some (sendmsg_entry e data sid pp opts fd n)"
| "task_sent e fd _ = None"

lemma send_task_ledger:
  assumes "advance K t (a, s) = (t', a', s')"
  shows "inner a' = inner a \<and> filter taken (trace s') @ opt_list (task_sent (target_endian K) (inner a) t)
    = filter taken (trace s) @ opt_list (task_sent (target_endian K) (inner a) t')"
proof -
  have poll: "poll_ready K (inner a) i s = (rd, s1) \<Longrightarrow> trace s1 = trace s @ [Call_ready (inner a) i]" for i rd s1
    by (auto simp: poll_ready_sys)
  show ?thesis
  proof (cases t)
    case RecvGuard
    obtain st r s1 where step: "recv_step K (inner a) False (recv_state a) s = (st, r, s1)" by (metis surj_pair)
    then have "trace s1 = trace s @ [Call_recvmsg (inner a) RECV_WINDOW False]"
      using recv_step_sys [of K "inner a" False "recv_state a" s] by (simp add: after_recv_def)
    with RecvGuard assms step show ?thesis by (auto simp: recv_under_lock_def split: option.splits)
  next
    case (Stepped step)
    with assms show ?thesis by (cases step) (auto simp: recv_outcome_def split: if_splits)
  next
    case (SendGuard m)
    obtain d sid pp opts where m: "m = (d, sid, pp, opts)" by (cases m)
    let ?args = "\<lambda>f. f (inner a) d (to_be (target_endian K) 4 pp) (opts_sinfo_flags opts) sid (ttl_ms opts) 0"
    obtain ret s1 where c: "syscall (?args Call_sendmsg) (?args (k_sendmsg K)) s = (ret, s1)" by fastforce
    then have "trace s1 = trace s @ [sendmsg_entry (target_endian K) d sid pp opts (inner a) (scast ret)]"
      by (auto simp: syscall_def sendmsg_entry_def split: prod.splits)
    with SendGuard m assms c show ?thesis by (auto simp: Let_def taken_entry split: if_splits)
  next
    case (Sent m r)
    with assms show ?thesis by auto
  qed (use assms poll in \<open>auto simp: clear_ready_def split: prod.splits readiness.splits if_splits\<close>)
qed

interpretation shared_send: shared_socket "advance K" "task_chunks K" starts starts Dropped elsewhere
  "\<lambda>(a, s) cs. inner a = fd" "\<lambda>(a, s) cs. mset (filter taken (trace s))"
  "\<lambda>t. opt_mset (task_sent (target_endian K) fd t)" "\<lambda>t. True" for K fd
proof
  fix as as' :: "SctpAssociation \<times> 'a sys" and t t' and cs :: "chunk list"
  assume "(\<lambda>(a, s) cs. inner a = fd) as cs" and "advance K t as = (t', as')"
  then show "(\<lambda>(a, s) cs. inner a = fd) as' (cs @ task_chunks K t as) \<and> True
    \<and> (\<lambda>(a, s) cs. mset (filter taken (trace s))) as' (cs @ task_chunks K t as) + opt_mset (task_sent (target_endian K) fd t)
      = (\<lambda>(a, s) cs. mset (filter taken (trace s))) as cs + opt_mset (task_sent (target_endian K) fd t')"
    using send_task_ledger [of K t "fst as" "snd as" t' "fst as'" "snd as'"]
    by (cases as; cases as') (simp flip: mset_opt_list del: mset_filter)
next
  show "elsewhere as as' \<Longrightarrow> (\<lambda>(a, s) cs. inner a = fd) as cs \<Longrightarrow> (\<lambda>(a, s) cs. inner a = fd) as' cs \<and>
      (\<lambda>(a, s) cs. mset (filter taken (trace s))) as' cs = (\<lambda>(a, s) cs. mset (filter taken (trace s))) as cs"
    for as as' :: "SctpAssociation \<times> 'a sys" and cs :: "chunk list"
    by (cases as; cases as') simp
qed (auto elim: starts.elims)

section \<open>Properties\<close>

text \<open>
  C7: concurrent receives share the association. However many receives and sends run on one association, in
  whatever order their actions interleave and whichever of them are dropped while they wait, every message
  and every notification that the accumulator makes of the chunks the kernel delivered is given to exactly
  one receive, none is lost and none is given twice; what is not complete yet is in the accumulator; and no
  task panics.
\<close>

theorem concurrent_receives_exact:
  assumes "recvmsg_ok K" and "reassembly_inv (recv_state a)" and "together K (a, s) ts (a', s') cs"
  shows "mset (List.map_filter task_result ts)
      = mset (List.map_filter step_result (fst (feed (push_input (target_endian K)) (buf (recv_state a)) cs)))
    \<and> buf (recv_state a') = snd (feed (push_input (target_endian K)) (buf (recv_state a)) cs)
    \<and> reassembly_inv (recv_state a') \<and> TaskPanicked \<notin> set ts"
proof -
  have "fed K (buf (recv_state a)) (recv_state a) []" using assms by (simp add: fed_def)
  with shared_recv.ledger [OF assms(3), of "buf (recv_state a)"] show ?thesis
    by (auto simp: sum_opt_mset fed_def List.map_filter_simps)
qed

text \<open>Two receives that have both been told that the socket is readable.\<close>

lemma two_guards:
  assumes "fst (k_ready K (inner a) READABLE (kern s)) = Ready"
    and "fst (k_ready K (inner a) READABLE (snd (k_ready K (inner a) READABLE (kern s)))) = Ready"
  shows "\<exists>s'. together K (a, s) [RecvGuard, RecvGuard] (a, s') []
    \<and> kern s' = snd (k_ready K (inner a) READABLE (snd (k_ready K (inner a) READABLE (kern s))))"
proof -
  obtain s1 where p1: "poll_ready K (inner a) READABLE s = (Ready, s1)" "kern s1 = snd (k_ready K (inner a) READABLE (kern s))"
    using assms(1) by (simp add: poll_ready_sys)
  obtain s2 where p2: "poll_ready K (inner a) READABLE s1 = (Ready, s2)" "kern s2 = snd (k_ready K (inner a) READABLE (kern s1))"
    using assms(2) p1(2) by (simp add: poll_ready_sys)
  have "together K (a, s) ([] @ [RecvAwait]) (a, s) []"
    by (rule interleaves.spawn [OF interleaves.start]) simp
  then have "together K (a, s) (([] @ [RecvAwait]) @ [RecvAwait]) (a, s) []"
    by (rule interleaves.spawn) simp
  then have "together K (a, s) [RecvAwait, RecvAwait] (a, s) []" by simp
  from act_at [OF this, of 0 RecvAwait RecvGuard "(a, s1)"] p1 have "together K (a, s) [RecvGuard, RecvAwait] (a, s1) []" by simp
  from act_at [OF this, of 1 RecvAwait RecvGuard "(a, s2)"] p2 have "together K (a, s) [RecvGuard, RecvGuard] (a, s2) []" by simp
  with p1(2) p2(2) show ?thesis by auto
qed

theorem concurrent_receives_exact_witness:
  "\<exists>ts a' s'. together sample_kernel (new_association 3, sample_sys [([187, 188], MSG_EOR, sample_sinfo)] 0) ts (a', s')
      [([187, 188], MSG_EOR, sample_sinfo, None)]
    \<and> mset (List.map_filter task_result ts) = {#Data [187, 188] (info_of Little sample_sinfo)#} \<and> length ts = 2"
proof -
  let ?a = "new_association 3" and ?s = "sample_sys [([187, 188], MSG_EOR, sample_sinfo)] 0"
  let ?c = "([187, 188], MSG_EOR, sample_sinfo, None) :: chunk"
  have fd: "inner ?a = 3" and inv: "reassembly_inv (recv_state ?a)" and b: "buf (recv_state ?a) = []"
    by (simp_all add: new_association_def reassembly_inv_default) (simp add: default_Reassembly_def)
  obtain s1 where g: "together sample_kernel (?a, ?s) [RecvGuard, RecvGuard] (?a, s1) []" "kern s1 = kern ?s"
    using two_guards [of sample_kernel ?a ?s] by (auto simp: fd sample_calls sample_sys_def)
  have c: "task_chunks sample_kernel RecvGuard (?a, s1) = [?c]"
    by (simp add: fd read_chunks_def recv_answer_def g(2) sample_defs RECV_WINDOW_def neg_def answer_chunk_def sender_of_def)
  obtain t a' s' where adv: "advance sample_kernel RecvGuard (?a, s1) = (t, a', s')" by (metis surj_pair)
  have run: "together sample_kernel (?a, ?s) [t, RecvGuard] (a', s') [?c]"
    using act_at [OF g(1) _ _ adv, of 0] c by simp
  have "fst (push_input Little [] ?c) = Complete [187, 188] (info_of Little sample_sinfo) None"
    by (simp add: push_chunk_def info_of_def MSG_EOR_def MSG_NOTIFICATION_def)
  then have "List.map_filter step_result (fst (feed (push_input Little) [] [?c])) = [Data [187, 188] (info_of Little sample_sinfo)]"
    by (simp add: feed_one List.map_filter_simps del: feed.simps(2) push_input.simps)
  with concurrent_receives_exact [OF sample_recvmsg_ok inv run] b run show ?thesis
    by (intro exI [of _ "[t, RecvGuard]"]) auto
qed

text \<open>
  C9: concurrent sends share the association. However receives and sends interleave, the messages the kernel
  has taken are those it had taken before and exactly one for each send that has returned a length, with its
  data, stream, flags, lifetime and protocol identifier; none for a send that failed, was dropped or waits.
\<close>

theorem concurrent_sends_exact:
  assumes "together K (a, s) ts (a', s') cs"
  shows "mset (filter taken (trace s'))
    = mset (filter taken (trace s)) + mset (List.map_filter (task_sent (target_endian K) (inner a)) ts)"
  using shared_send.ledger [OF assms, of "inner a"] by (simp add: sum_opt_mset)

theorem concurrent_sends_exact_witness:
  "\<exists>ts a' s'. together sample_kernel (new_association 3, sample_sys [] 1) ts (a', s') []
    \<and> mset (filter taken (trace s')) = {#Call_sendmsg 3 [1, 2] (to_be Little 4 46) 0 5 0 0 2#}"
proof -
  let ?a = "new_association 3" and ?m = "([1, 2], 5, 46, default_SendOptions)"
  note defs = poll_ready_def syscall_def sample_defs new_association_def neg_def opts_sinfo_flags_def default_SendOptions_def
  have "together sample_kernel (?a, sample_sys [] 1) ([] @ [SendAwait ?m]) (?a, sample_sys [] 1) []"
    by (rule interleaves.spawn [OF interleaves.start]) simp
  then have r0: "together sample_kernel (?a, sample_sys [] 1) [SendAwait ?m] (?a, sample_sys [] 1) []" by simp
  obtain s1 where a1: "advance sample_kernel (SendAwait ?m) (?a, sample_sys [] 1) = (SendGuard ?m, ?a, s1)"
    and k: "kern s1 = kern (sample_sys [] 1)"
    by (simp add: defs)
  have r1: "together sample_kernel (?a, sample_sys [] 1) [SendGuard ?m] (?a, s1) []"
    using act_at [OF r0 _ _ a1, of 0] by simp
  have room: "room (kern s1) = 1" using k by (simp add: sample_sys_def)
  obtain s2 where a2: "advance sample_kernel (SendGuard ?m) (?a, s1) = (Sent ?m (Inr 2), ?a, s2)"
    by (simp add: defs room)
  have r2: "together sample_kernel (?a, sample_sys [] 1) [Sent ?m (Inr 2)] (?a, s2) []"
    using act_at [OF r1 _ _ a2, of 0] by simp
  have "opts_sinfo_flags default_SendOptions = 0" "ttl_ms default_SendOptions = 0" "inner ?a = 3" "trace (sample_sys [] 1) = []"
    by (simp_all add: defs)
  with concurrent_sends_exact [OF r2] r2 show ?thesis
    by (intro exI [of _ "[Sent ?m (Inr 2)]"]) (auto simp: List.map_filter_simps sendmsg_entry_def)
qed

text \<open>
  C37: a receive can wait on an association that has ended. Two receives have been told that the socket is
  readable; the first reads the notification of the end, and the second, which finds nothing, looks at
  \<open>ended\<close> before the first has closed it. Then it clears the readiness and waits, and the association is
  ended: the receive has found nothing queued and does not return the error that it documents.
\<close>

theorem ended_receive_waits:
  assumes "together K as0 ts (a, s) cs" and "i < length ts" and "j < length ts" and "i \<noteq> j"
    and "ts ! i = RecvGuard" and "ts ! j = RecvGuard" and "\<not> ended a" and "ends n"
    and "recv_step K (inner a) False (recv_state a) s = (Some (StepNotification n), r, s1)"
    and "recv_step K (inner a) False r s1 = (Some WouldBlock, r', s2)"
  shows "\<exists>cs'. together K as0 (ts[i := Received (Inr (RecvNotification n)), j := RecvAwait])
      (a\<lparr>recv_state := r', ended := True\<rparr>, clear_ready K (inner a) READABLE s2) cs'"
proof -
  let ?a1 = "a\<lparr>recv_state := r\<rparr>" and ?a2 = "a\<lparr>recv_state := r'\<rparr>" and ?a3 = "a\<lparr>recv_state := r', ended := True\<rparr>"
  let ?n = "Stepped (StepNotification n)"
  have 1: "together K as0 (ts[i := ?n]) (?a1, s1) (cs @ task_chunks K RecvGuard (a, s))"
    by (rule act_at [OF assms(1,2,5)]) (simp add: recv_under_lock_def assms(9))
  have 2: "together K as0 (ts[i := ?n, j := Stepped WouldBlock]) (?a2, s2)
      (cs @ task_chunks K RecvGuard (a, s) @ task_chunks K RecvGuard (?a1, s1))"
    using act_at [OF 1, of j RecvGuard "Stepped WouldBlock" "(?a2, s2)"] assms(3-6,10) by (simp add: recv_under_lock_def)
  let ?cs = "cs @ task_chunks K RecvGuard (a, s) @ task_chunks K RecvGuard (?a1, s1)"
  have 3: "together K as0 (ts[i := ?n, j := RecvClear]) (?a2, s2) ?cs"
    using act_at [OF 2, of j "Stepped WouldBlock" RecvClear "(?a2, s2)"] assms(3,7) by (simp add: recv_outcome_def)
  have 4: "together K as0 (ts[i := Received (Inr (RecvNotification n)), j := RecvClear]) (?a3, s2) ?cs"
    using act_at [OF 3, of i ?n "Received (Inr (RecvNotification n))" "(?a3, s2)"] assms(2-4,8)
    by (simp add: recv_outcome_def list_update_swap [of j i])
  have 5: "together K as0 (ts[i := Received (Inr (RecvNotification n)), j := RecvAwait])
      (?a3, clear_ready K (inner a) READABLE s2) ?cs"
    using act_at [OF 4, of j RecvClear RecvAwait "(?a3, clear_ready K (inner a) READABLE s2)"] assms(3) by simp
  then show ?thesis by blast
qed

text \<open>A kernel whose readiness is kept until it is cleared, as a reactor keeps it.\<close>

definition edge_kernel :: "sample_world kernel" where
  "edge_kernel = sample_kernel\<lparr>k_ready := (\<lambda>_ _ w. (if edge w then Ready else NotReady, w)),
     k_clear_ready := (\<lambda>_ _ w. w\<lparr>edge := False\<rparr>)\<rparr>"

lemma edge_calls:
  "k_ready edge_kernel fd i w = (if edge w then Ready else NotReady, w)" "k_clear_ready edge_kernel fd i w = w\<lparr>edge := False\<rparr>"
  "k_recvmsg edge_kernel = k_recvmsg sample_kernel" "k_errno edge_kernel = err_no" "target_endian edge_kernel = Little"
  "EAGAIN edge_kernel = 11"
  by (simp_all add: edge_kernel_def sample_calls) (simp add: sample_defs)

lemma edge_recvmsg_ok: "recvmsg_ok edge_kernel"
  using sample_recvmsg_ok by (simp add: recvmsg_ok_def edge_calls)

lemma edge_waits: "\<not> edge (kern s) \<Longrightarrow> fst (recv_msg edge_kernel k (a, s)) = Again"
  unfolding recv_msg_def
proof (induction k arbitrary: s)
  case (Suc k)
  then show ?case by (simp add: recv_msg_turn_def poll_ready_sys edge_calls)
qed simp

lemma edge_recv_empty:
  assumes "reassembly_inv r" and "inq (kern s) = []" and "recv_step edge_kernel fd False r s = (st, r', s')"
  shows "st = Some WouldBlock"
proof -
  have "k_recvmsg sample_kernel fd RECV_WINDOW False (kern s)
      = (sample_out (- 1) [] 0 default_SctpSndRcvInfo, kern s\<lparr>err_no := 11\<rparr>)"
    using assms(2) by (simp add: sample_kernel_def libc.defs)
  moreover have "s' = after_recv edge_kernel fd False s" using recv_step_sys [of edge_kernel fd False r s] assms(3) by simp
  ultimately have "neg (ro_ret (recv_answer edge_kernel fd False s))" "last_os_error edge_kernel s' = Os 11"
    by (simp_all add: recv_answer_def after_recv_def edge_calls sample_out_def neg_def last_os_error_def)
  with recv_step_outcome [OF edge_recvmsg_ok assms(1,3)] show ?thesis
    by (simp add: is_would_block_def edge_calls)
qed

theorem ended_receive_waits_witness:
  "\<exists>n a s cs. together edge_kernel (new_association 3, sample_sys [(assoc_change_bytes Little sample_change, MSG_NOTIFICATION, sample_sinfo)] 0)
      [Received (Inr (RecvNotification n)), RecvAwait] (a, s) cs
    \<and> ended a \<and> (\<forall>k. fst (recv_msg edge_kernel k (a, s)) = Again)"
proof -
  let ?b = "assoc_change_bytes Little sample_change" and ?a = "new_association 3"
  let ?s = "sample_sys [(?b, MSG_NOTIFICATION, sample_sinfo)] 0" and ?n = "parse_notification Little ?b"
  have a: "inner ?a = 3" "reassembly_inv (recv_state ?a)" "\<not> ended ?a"
    by (simp_all add: new_association_def reassembly_inv_default)
  have len: "length ?b = 20" by (simp add: sctp_layout)
  obtain s0 where g: "together edge_kernel (?a, ?s) [RecvGuard, RecvGuard] (?a, s0) []" "kern s0 = kern ?s"
    using two_guards [of edge_kernel ?a ?s] by (auto simp: a edge_calls sample_sys_def)
  obtain st r s1 where st: "recv_step edge_kernel (inner ?a) False (recv_state ?a) s0 = (st, r, s1)" by (metis surj_pair)
  have out: "recv_answer edge_kernel (inner ?a) False s0 = sample_out 20 ?b MSG_NOTIFICATION sample_sinfo"
    "s1 = after_recv edge_kernel (inner ?a) False s0" "inq (kern (after_recv edge_kernel (inner ?a) False s0)) = []"
    using recv_step_sys [of edge_kernel "inner ?a" False "recv_state ?a" s0] st len
    by (simp_all add: recv_answer_def after_recv_def g(2) edge_calls sample_sys_def RECV_WINDOW_def sample_kernel_def libc.defs)
  have "st = Some (StepNotification ?n) \<and> reassembly_inv r"
    using recv_step_outcome [OF edge_recvmsg_ok a(2) st] out(1)
    by (simp add: sample_out_def neg_def edge_calls answer_chunk_def push_chunk_def MSG_NOTIFICATION_def)
  then have r: "st = Some (StepNotification ?n)" "reassembly_inv r" by simp_all
  obtain st' r' s2 where "recv_step edge_kernel (inner ?a) False r s1 = (st', r', s2)" by (metis surj_pair)
  then have st': "recv_step edge_kernel (inner ?a) False r s1 = (Some WouldBlock, r', s2)"
    using edge_recv_empty [OF r(2)] out by metis
  have "ends ?n" by (simp add: sample_change_lost)
  from ended_receive_waits [OF g(1), of 0 1, OF _ _ _ _ _ a(3) this st [unfolded r(1)] st'] obtain cs where
    "together edge_kernel (?a, ?s) [Received (Inr (RecvNotification ?n)), RecvAwait]
      (?a\<lparr>recv_state := r', ended := True\<rparr>, clear_ready edge_kernel (inner ?a) READABLE s2) cs" by auto
  moreover have "\<not> edge (kern (clear_ready edge_kernel (inner ?a) READABLE s2))"
    by (simp add: clear_ready_def edge_calls)
  ultimately show ?thesis
    using edge_waits by (intro exI [of _ ?n] exI [of _ "?a\<lparr>recv_state := r', ended := True\<rparr>"]) auto
qed

end
