(* ===== verification/Duplex.thy ===== *)
theory Duplex
  imports Tasks
begin

text \<open>
  An association that one task reads and another writes, as a program usually has it: receives come one
  after the other, sends come one after the other, and the two interleave as they like. \<open>Tasks\<close> shows that
  nothing is lost or given twice; under this discipline the order is kept as well.
\<close>

section \<open>One reader and one writer\<close>

fun receiving :: "task \<Rightarrow> bool" where
  "receiving RecvAwait \<longleftrightarrow> True"
| "receiving RecvGuard \<longleftrightarrow> True"
| "receiving (Stepped step) \<longleftrightarrow> True"
| "receiving RecvClear \<longleftrightarrow> True"
| "receiving _ \<longleftrightarrow> False"

fun sending :: "task \<Rightarrow> bool" where
  "sending (SendAwait m) \<longleftrightarrow> True"
| "sending (SendCheck m) \<longleftrightarrow> True"
| "sending (SendGuard m) \<longleftrightarrow> True"
| "sending (SendClear m) \<longleftrightarrow> True"
| "sending _ \<longleftrightarrow> False"

definition same_role :: "task \<Rightarrow> task \<Rightarrow> bool" where
  "same_role u t \<longleftrightarrow> receiving u \<and> receiving t \<or> sending u \<and> sending t"

abbreviation duplex :: "('w, 'x) kernel_scheme \<Rightarrow> SctpAssociation \<times> 'w sys \<Rightarrow> task list \<Rightarrow> SctpAssociation \<times> 'w sys \<Rightarrow>
    chunk list \<Rightarrow> bool" where
  "duplex K \<equiv> takes_turns (advance K) (task_chunks K) starts starts Dropped elsewhere same_role"

lemma recv_other_keeps:
  assumes "advance K t (a, s) = (t', a', s')" and "\<not> receiving t"
  shows "recv_state a' = recv_state a \<and> task_chunks K t (a, s) = [] \<and> task_result t' = task_result t \<and> \<not> receiving t'"
proof (cases t)
  case (SendGuard m)
  obtain d sid pp opts where "m = (d, sid, pp, opts)" by (cases m)
  with SendGuard assms show ?thesis by (auto simp: Let_def split: prod.splits if_splits)
qed (use assms in \<open>auto split: prod.splits readiness.splits if_splits\<close>)

lemma send_other_keeps:
  assumes "advance K t (a, s) = (t', a', s')" and "\<not> sending t"
  shows "task_sent e fd t' = task_sent e fd t \<and> \<not> sending t'"
proof (cases t)
  case RecvGuard
  obtain st r s1 where "recv_step K (inner a) False (recv_state a) s = (st, r, s1)" by (metis surj_pair)
  with RecvGuard assms show ?thesis by (cases st) (auto simp: recv_under_lock_def)
next
  case (Stepped step)
  with assms show ?thesis by (cases step) (auto simp: recv_outcome_def split: if_splits)
qed (use assms in \<open>auto split: prod.splits readiness.splits if_splits\<close>)

lemma starts_holds_nothing: "starts t \<Longrightarrow> task_result t = None \<and> task_sent e fd t = None"
  by (cases t rule: starts.cases) simp_all

section \<open>What is received is in order\<close>

interpretation reader: ordered_socket "advance K" "task_chunks K" starts starts Dropped elsewhere same_role receiving
  "\<lambda>(a, s). fed K b0 (recv_state a)"
  "\<lambda>_ cs. List.map_filter step_result (fst (feed (push_input (target_endian K)) b0 cs))" task_result for K b0
proof
  fix as as' :: "SctpAssociation \<times> 'a sys" and t t' cs
  let ?out = "\<lambda>cs. List.map_filter step_result (fst (feed (push_input (target_endian K)) b0 cs))"
  assume inv: "(\<lambda>(a, s). fed K b0 (recv_state a)) as cs" and adv: "advance K t as = (t', as')"
  obtain a s where as: "as = (a, s)" by (cases as)
  obtain a' s' where as': "as' = (a', s')" by (cases as')
  show "(\<lambda>(a, s). fed K b0 (recv_state a)) as' (cs @ task_chunks K t as)
    \<and> ?out (cs @ task_chunks K t as) @ opt_list (task_result t) = ?out cs @ opt_list (task_result t')" if "receiving t"
  proof -
    have "t \<noteq> TaskPanicked" using that by auto
    with recv_task_ledger [of K b0 a cs t s t' a' s'] inv adv show ?thesis by (simp add: as as')
  qed
  show "(\<lambda>(a, s). fed K b0 (recv_state a)) as' (cs @ task_chunks K t as) \<and> ?out (cs @ task_chunks K t as) = ?out cs
    \<and> task_result t' = task_result t \<and> \<not> receiving t'" if "\<not> receiving t"
    using recv_other_keeps [of K t a s t' a' s'] inv adv that by (simp add: as as')
qed (auto simp: starts_holds_nothing same_role_def)

section \<open>What is sent is in order\<close>

interpretation writer: ordered_socket "advance K" "task_chunks K" starts starts Dropped elsewhere same_role sending
  "\<lambda>(a, s) cs. inner a = fd" "\<lambda>(a, s) cs. filter taken (trace s)" "task_sent (target_endian K) fd" for K fd
proof
  fix as as' :: "SctpAssociation \<times> 'a sys" and t t' and cs :: "chunk list"
  assume inv: "(\<lambda>(a, s) cs. inner a = fd) as cs" and adv: "advance K t as = (t', as')"
  obtain a s where as: "as = (a, s)" by (cases as)
  obtain a' s' where as': "as' = (a', s')" by (cases as')
  note ledger = send_task_ledger [of K t a s t' a' s']
  show "(\<lambda>(a, s) cs. inner a = fd) as' (cs @ task_chunks K t as)
    \<and> (\<lambda>(a, s) cs. filter taken (trace s)) as' (cs @ task_chunks K t as) @ opt_list (task_sent (target_endian K) fd t)
      = (\<lambda>(a, s) cs. filter taken (trace s)) as cs @ opt_list (task_sent (target_endian K) fd t')" if "sending t"
    using ledger inv adv by (simp add: as as')
  show "(\<lambda>(a, s) cs. inner a = fd) as' (cs @ task_chunks K t as)
    \<and> (\<lambda>(a, s) cs. filter taken (trace s)) as' (cs @ task_chunks K t as) = (\<lambda>(a, s) cs. filter taken (trace s)) as cs
    \<and> task_sent (target_endian K) fd t' = task_sent (target_endian K) fd t \<and> \<not> sending t'" if "\<not> sending t"
    using ledger send_other_keeps [of K t a s t' a' s' "target_endian K" fd] inv adv that by (auto simp: as as')
qed (auto simp: starts_holds_nothing same_role_def)

section \<open>Property\<close>

text \<open>
  C10: reading and writing at the same time keeps both orders. When at most one receive and at most one send
  of an association are under way at a time, however their actions interleave and whichever are dropped while
  they wait, the results of the receives, in the order in which they were started, are exactly what the
  accumulator makes of the chunks delivered, in order; and what the kernel has taken is exactly the messages
  of the sends that returned a length, in the order in which they were started.
\<close>

theorem duplex_in_order:
  assumes "recvmsg_ok K" and "reassembly_inv (recv_state a)" and "duplex K (a, s) ts (a', s') cs"
  shows "List.map_filter task_result ts
      = List.map_filter step_result (fst (feed (push_input (target_endian K)) (buf (recv_state a)) cs))
    \<and> filter taken (trace s') = filter taken (trace s) @ List.map_filter (task_sent (target_endian K) (inner a)) ts"
proof -
  have "fed K (buf (recv_state a)) (recv_state a) []" using assms by (simp add: fed_def)
  with reader.in_order [OF assms(3), of "buf (recv_state a)"] writer.in_order [OF assms(3), of "inner a"]
  show ?thesis by (simp add: List.map_filter_simps)
qed

lemma duplex_act:
  "duplex K as0 ts as cs \<Longrightarrow> i < length ts \<Longrightarrow> ts ! i = t \<Longrightarrow> advance K t as = (t', as') \<Longrightarrow>
   duplex K as0 (ts[i := t']) as' (cs @ task_chunks K t as)"
  using takes_turns.act by fastforce

theorem duplex_in_order_witness:
  "\<exists>ts a' s'. duplex sample_kernel (new_association 3, sample_sys [([187, 188], MSG_EOR, sample_sinfo)] 0) ts (a', s')
      [([187, 188], MSG_EOR, sample_sinfo, None)] \<and> length ts = 2
    \<and> List.map_filter task_result ts = [Data [187, 188] (info_of Little sample_sinfo)] \<and> filter taken (trace s') = []"
proof -
  let ?a = "new_association 3" and ?s = "sample_sys [([187, 188], MSG_EOR, sample_sinfo)] 0"
  let ?c = "([187, 188], MSG_EOR, sample_sinfo, None) :: chunk" and ?w = "SendAwait ([1, 2], 5, 46, default_SendOptions)"
  have fd: "inner ?a = 3" and inv: "reassembly_inv (recv_state ?a)" and b: "buf (recv_state ?a) = []"
    by (simp_all add: new_association_def reassembly_inv_default) (simp add: default_Reassembly_def)
  have "duplex sample_kernel (?a, ?s) (([] @ [RecvAwait]) @ [?w]) (?a, ?s) []"
    by (intro takes_turns.spawn takes_turns.start) (simp_all add: same_role_def)
  then have r0: "duplex sample_kernel (?a, ?s) [RecvAwait, ?w] (?a, ?s) []" by simp
  obtain s1 where p: "poll_ready sample_kernel 3 READABLE ?s = (Ready, s1)" "kern s1 = kern ?s"
    by (simp add: poll_ready_sys sample_calls sample_sys_def)
  then have r1: "duplex sample_kernel (?a, ?s) [RecvGuard, ?w] (?a, s1) []"
    using duplex_act [OF r0, of 0 RecvAwait RecvGuard "(?a, s1)"] by (simp add: fd)
  have c: "task_chunks sample_kernel RecvGuard (?a, s1) = [?c]"
    by (simp add: fd read_chunks_def recv_answer_def p(2) sample_defs RECV_WINDOW_def neg_def answer_chunk_def sender_of_def)
  obtain t a' s' where adv: "advance sample_kernel RecvGuard (?a, s1) = (t, a', s')" by (metis surj_pair)
  have run: "duplex sample_kernel (?a, ?s) [t, ?w] (a', s') [?c]"
    using duplex_act [OF r1 _ _ adv, of 0] c by simp
  have "fst (push_input Little [] ?c) = Complete [187, 188] (info_of Little sample_sinfo) None"
    by (simp add: push_chunk_def info_of_def MSG_EOR_def MSG_NOTIFICATION_def)
  then have f: "List.map_filter step_result (fst (feed (push_input Little) [] [?c])) = [Data [187, 188] (info_of Little sample_sinfo)]"
    by (simp add: feed_one List.map_filter_simps del: feed.simps(2) push_input.simps)
  note x = duplex_in_order [OF sample_recvmsg_ok inv run]
  have "task_sent Little 3 t = None" using send_other_keeps [OF adv, of Little 3] by simp
  with x f b fd run show ?thesis
    by (intro exI [of _ "[t, ?w]"] exI [of _ a'] exI [of _ s']) (simp add: List.map_filter_simps sample_sys_def)
qed

end
