(* ===== verification/Server_Tasks.thy ===== *)
theory Server_Tasks
  imports Tasks Server
begin

text \<open>
  Tasks that use one one-to-many server at the same time: \<open>recv\<close> and \<open>send_with\<close> of \<open>src/server.rs\<close> cut into
  their atomic actions, as \<open>Tasks\<close> does for an association, and the same contract of a shared socket.
\<close>

section \<open>The actions\<close>

type_synonym server_msg = "i32 \<times> bytes \<times> u16 \<times> u32 \<times> SendOptions"

datatype server_task =
    SvAwait  \<comment> \<open>at \<open>readable().await\<close>\<close>
  | SvGuard
  | SvStepped Step
  | SvClear
  | SvReceived "SctpError + ServerMessage"
  | SvSendAwait server_msg  \<comment> \<open>at \<open>writable().await\<close>\<close>
  | SvSendGuard server_msg
  | SvSendClear server_msg
  | SvSent server_msg "SctpError + usize"
  | SvDropped
  | SvPanicked

definition server_outcome :: "Step \<Rightarrow> server_task" where
  "server_outcome step = (case step of
     WouldBlock \<Rightarrow> SvClear
   | More \<Rightarrow> SvAwait
   | StepNotification n \<Rightarrow> SvReceived (Inr (ServerNotification n))
   | Complete d info addr \<Rightarrow> (case addr of
        None \<Rightarrow> SvReceived (Inl (Io (Custom InvalidData ''sctp: data message without a peer address'')))
      | Some peer \<Rightarrow> SvReceived (Inr (ServerData d info peer)))
   | StepErr e \<Rightarrow> SvReceived (Inl e))"

fun server_recv_advance :: "('w, 'x) kernel_scheme \<Rightarrow> server_task \<Rightarrow> SctpServer \<times> 'w sys \<Rightarrow>
    server_task \<times> SctpServer \<times> 'w sys" where
  "server_recv_advance K SvAwait (v, s) = (case poll_ready K (sv_inner v) READABLE s of
     (Ready, s') \<Rightarrow> (SvGuard, v, s')
   | (NotReady, s') \<Rightarrow> (SvAwait, v, s')
   | (ReadyErr e, s') \<Rightarrow> (SvReceived (Inl (Io e)), v, s'))"
| "server_recv_advance K SvGuard (v, s) = (case recv_step K (sv_inner v) True (sv_recv_state v) s of (st, r, s') \<Rightarrow>
     ((case st of None \<Rightarrow> SvPanicked | Some step \<Rightarrow> SvStepped step), v\<lparr>sv_recv_state := r\<rparr>, s'))"
| "server_recv_advance K (SvStepped step) (v, s) = (server_outcome step, v, s)"
| "server_recv_advance K SvClear (v, s) = (SvAwait, v, clear_ready K (sv_inner v) READABLE s)"
| "server_recv_advance K t vs = (t, vs)"

fun server_send_under_guard :: "('w, 'x) kernel_scheme \<Rightarrow> server_msg \<Rightarrow> SctpServer \<times> 'w sys \<Rightarrow>
    server_task \<times> SctpServer \<times> 'w sys" where
  "server_send_under_guard K (aid, data, sid, pp, opts) (v, s) =
     (let fd = sv_inner v; sinfo = server_sinfo (target_endian K) aid sid pp opts in
      case syscall (Call_send fd data sinfo 0) (k_send K fd data sinfo 0) s of (ret, s') \<Rightarrow>
        if neg ret then
          (let er = last_os_error K s' in
           (if is_would_block K er then SvSendClear (aid, data, sid, pp, opts)
            else SvSent (aid, data, sid, pp, opts) (Inl (Io er)), v, s'))
        else (SvSent (aid, data, sid, pp, opts) (Inr (scast ret)), v, s'))"

fun server_send_advance :: "('w, 'x) kernel_scheme \<Rightarrow> server_task \<Rightarrow> SctpServer \<times> 'w sys \<Rightarrow>
    server_task \<times> SctpServer \<times> 'w sys" where
  "server_send_advance K (SvSendAwait m) (v, s) = (case poll_ready K (sv_inner v) WRITABLE s of
     (Ready, s') \<Rightarrow> (SvSendGuard m, v, s')
   | (NotReady, s') \<Rightarrow> (SvSendAwait m, v, s')
   | (ReadyErr e, s') \<Rightarrow> (SvSent m (Inl (Io e)), v, s'))"
| "server_send_advance K (SvSendGuard m) vs = server_send_under_guard K m vs"
| "server_send_advance K (SvSendClear m) (v, s) = (SvSendAwait m, v, clear_ready K (sv_inner v) WRITABLE s)"
| "server_send_advance K t vs = (t, vs)"

definition server_advance :: "('w, 'x) kernel_scheme \<Rightarrow> server_task \<Rightarrow> SctpServer \<times> 'w sys \<Rightarrow>
    server_task \<times> SctpServer \<times> 'w sys" where
  "server_advance K t vs = (case t of
     SvSendAwait m \<Rightarrow> server_send_advance K t vs
   | SvSendGuard m \<Rightarrow> server_send_advance K t vs
   | SvSendClear m \<Rightarrow> server_send_advance K t vs
   | _ \<Rightarrow> server_recv_advance K t vs)"

fun server_starts :: "server_task \<Rightarrow> bool" where
  "server_starts SvAwait \<longleftrightarrow> True"
| "server_starts (SvSendAwait m) \<longleftrightarrow> True"
| "server_starts _ \<longleftrightarrow> False"

fun server_task_chunks :: "('w, 'x) kernel_scheme \<Rightarrow> server_task \<Rightarrow> SctpServer \<times> 'w sys \<Rightarrow> chunk list" where
  "server_task_chunks K SvGuard (v, s) = read_chunks K (sv_inner v) True s"
| "server_task_chunks K _ _ = []"

abbreviation server_together :: "('w, 'x) kernel_scheme \<Rightarrow> SctpServer \<times> 'w sys \<Rightarrow> server_task list \<Rightarrow>
    SctpServer \<times> 'w sys \<Rightarrow> chunk list \<Rightarrow> bool" where
  "server_together K \<equiv> interleaves (server_advance K) (server_task_chunks K) server_starts server_starts SvDropped elsewhere"

section \<open>What is received\<close>

fun server_task_result :: "server_task \<Rightarrow> ServerMessage option" where
  "server_task_result (SvStepped step) = server_step_result step"
| "server_task_result (SvReceived (Inr x)) = Some x"
| "server_task_result _ = None"

lemma server_outcome_result: "server_task_result (server_outcome step) = server_step_result step"
  "server_outcome step \<noteq> SvPanicked"
  by (cases step rule: server_step_result.cases; simp add: server_outcome_def)+

interpretation server_shared_recv: shared_socket "server_advance K" "server_task_chunks K" server_starts server_starts SvDropped elsewhere
  "\<lambda>(v, s). fed K b0 (sv_recv_state v)"
  "\<lambda>_ cs. mset (List.map_filter server_step_result (fst (feed (push_input (target_endian K)) b0 cs)))"
  "\<lambda>t. opt_mset (server_task_result t)" "\<lambda>t. t \<noteq> SvPanicked" for K b0
proof
  fix vs vs' :: "SctpServer \<times> 'a sys" and t t' cs
  assume inv: "(\<lambda>(v, s). fed K b0 (sv_recv_state v)) vs cs" and adv: "server_advance K t vs = (t', vs')" and sane: "t \<noteq> SvPanicked"
  obtain v s where vs: "vs = (v, s)" by (cases vs)
  let ?out = "\<lambda>cs. mset (List.map_filter server_step_result (fst (feed (push_input (target_endian K)) b0 cs)))"
  show "(\<lambda>(v, s). fed K b0 (sv_recv_state v)) vs' (cs @ server_task_chunks K t vs) \<and> t' \<noteq> SvPanicked
    \<and> ?out (cs @ server_task_chunks K t vs) + opt_mset (server_task_result t) = ?out cs + opt_mset (server_task_result t')"
  proof (cases "t = SvGuard")
    case True
    obtain st r s' where step: "recv_step K (sv_inner v) True (sv_recv_state v) s = (st, r, s')" by (metis surj_pair)
    obtain x where x: "st = Some x" "fed K b0 r (cs @ read_chunks K (sv_inner v) True s)"
      "List.map_filter server_step_result (fst (feed (push_input (target_endian K)) b0 (cs @ read_chunks K (sv_inner v) True s)))
       = List.map_filter server_step_result (fst (feed (push_input (target_endian K)) b0 cs)) @ List.map_filter server_step_result [x]"
      using fed_step [where report = server_step_result, OF _ step] inv vs by auto
    have "mset (List.map_filter server_step_result [x]) = opt_mset (server_step_result x)"
      by (cases "server_step_result x") (simp_all add: List.map_filter_simps)
    with True adv vs step x show ?thesis by (auto simp: server_advance_def)
  next
    case False
    then have no: "server_task_chunks K t vs = []" by (cases t) (simp_all add: vs)
    show ?thesis
    proof (cases t)
      case (SvSendGuard m)
      obtain aid d sid pp opts where "m = (aid, d, sid, pp, opts)" by (cases m)
      with SvSendGuard adv vs inv no show ?thesis
        by (auto simp: server_advance_def Let_def split: prod.splits if_splits)
    qed (use adv vs inv no sane False server_outcome_result in
        \<open>auto simp: server_advance_def split: prod.splits readiness.splits if_splits\<close>)
  qed
next
  show "elsewhere vs vs' \<Longrightarrow> (\<lambda>(v, s). fed K b0 (sv_recv_state v)) vs cs \<Longrightarrow> (\<lambda>(v, s). fed K b0 (sv_recv_state v)) vs' cs \<and>
      mset (List.map_filter server_step_result (fst (feed (push_input (target_endian K)) b0 cs)))
      = mset (List.map_filter server_step_result (fst (feed (push_input (target_endian K)) b0 cs)))"
    for vs vs' :: "SctpServer \<times> 'a sys" and cs
    by (cases vs; cases vs') simp
qed (auto elim: server_starts.elims)

section \<open>What is sent\<close>

fun server_task_sent :: "endian \<Rightarrow> i32 \<Rightarrow> server_task \<Rightarrow> call option" where
  "server_task_sent e fd (SvSent (aid, data, sid, pp, opts) (Inr n)) = Some (send_entry e aid data sid pp opts fd n)"
| "server_task_sent e fd _ = None"

interpretation server_shared_send: shared_socket "server_advance K" "server_task_chunks K" server_starts server_starts SvDropped elsewhere
  "\<lambda>(v, s) cs. sv_inner v = fd" "\<lambda>(v, s) cs. mset (filter taken (trace s))"
  "\<lambda>t. opt_mset (server_task_sent (target_endian K) fd t)" "\<lambda>t. True" for K fd
proof
  fix vs vs' :: "SctpServer \<times> 'a sys" and t t' and cs :: "chunk list"
  assume inv: "(\<lambda>(v, s) cs. sv_inner v = fd) vs cs" and adv: "server_advance K t vs = (t', vs')"
  obtain v s where vs: "vs = (v, s)" by (cases vs)
  have fd: "sv_inner v = fd" using inv vs by simp
  have poll: "poll_ready K (sv_inner v) i s = (rd, s1) \<Longrightarrow> trace s1 = trace s @ [Call_ready (sv_inner v) i]" for i rd s1
    by (auto simp: poll_ready_sys)
  show "(\<lambda>(v, s) cs. sv_inner v = fd) vs' (cs @ server_task_chunks K t vs) \<and> True
    \<and> (\<lambda>(v, s) cs. mset (filter taken (trace s))) vs' (cs @ server_task_chunks K t vs) + opt_mset (server_task_sent (target_endian K) fd t)
      = (\<lambda>(v, s) cs. mset (filter taken (trace s))) vs cs + opt_mset (server_task_sent (target_endian K) fd t')"
  proof (cases t)
    case SvGuard
    obtain st r s' where step: "recv_step K (sv_inner v) True (sv_recv_state v) s = (st, r, s')" by (metis surj_pair)
    then have "trace s' = trace s @ [Call_recvmsg (sv_inner v) RECV_WINDOW True]"
      using recv_step_sys [of K "sv_inner v" True "sv_recv_state v" s] by (simp add: after_recv_def)
    with SvGuard adv vs step fd show ?thesis by (auto simp: server_advance_def split: option.splits)
  next
    case (SvStepped step)
    with adv vs fd show ?thesis
      by (cases step) (auto simp: server_advance_def server_outcome_def split: option.splits)
  next
    case (SvSendGuard m)
    obtain aid d sid pp opts where m: "m = (aid, d, sid, pp, opts)" by (cases m)
    let ?i = "server_sinfo (target_endian K) aid sid pp opts"
    obtain ret s1 where c: "syscall (Call_send (sv_inner v) d ?i 0) (k_send K (sv_inner v) d ?i 0) s = (ret, s1)" by fastforce
    then have "trace s1 = trace s @ [send_entry (target_endian K) aid d sid pp opts (sv_inner v) (scast ret)]"
      by (auto simp: syscall_def send_entry_def split: prod.splits)
    with SvSendGuard m adv vs c fd show ?thesis
      by (auto simp: server_advance_def Let_def taken_send_entry split: if_splits)
  next
    case (SvSent m r)
    with adv vs fd show ?thesis by (auto simp: server_advance_def)
  qed (use adv vs fd poll in \<open>auto simp: server_advance_def clear_ready_def split: prod.splits readiness.splits if_splits\<close>)
next
  show "elsewhere vs vs' \<Longrightarrow> (\<lambda>(v, s) cs. sv_inner v = fd) vs cs \<Longrightarrow> (\<lambda>(v, s) cs. sv_inner v = fd) vs' cs \<and>
      (\<lambda>(v, s) cs. mset (filter taken (trace s))) vs' cs = (\<lambda>(v, s) cs. mset (filter taken (trace s))) vs cs"
    for vs vs' :: "SctpServer \<times> 'a sys" and cs :: "chunk list"
    by (cases vs; cases vs') simp
qed (auto elim: server_starts.elims)

section \<open>Property\<close>

lemma sample_sender: "ro_from out = [] \<Longrightarrow> sender_of sample_kernel want out = None"
  using sample_no_sender by (auto simp: sender_of_def)

text \<open>
  C11: tasks share a server. However many receives and sends run on one server, in whatever order their
  actions interleave and whichever of them are dropped while they wait: every message with a sender and
  every notification that the accumulator makes of the chunks delivered is given to exactly one receive,
  what is not complete stays in the accumulator and no task panics; and the messages the kernel has taken
  are exactly one for each send that has returned a length, addressed to the association it was given.
\<close>

theorem server_tasks_exact:
  assumes "recvmsg_ok K" and "reassembly_inv (sv_recv_state v)" and "server_together K (v, s) ts (v', s') cs"
  shows "mset (List.map_filter server_task_result ts)
      = mset (List.map_filter server_step_result (fst (feed (push_input (target_endian K)) (buf (sv_recv_state v)) cs)))
    \<and> buf (sv_recv_state v') = snd (feed (push_input (target_endian K)) (buf (sv_recv_state v)) cs)
    \<and> SvPanicked \<notin> set ts
    \<and> mset (filter taken (trace s'))
      = mset (filter taken (trace s)) + mset (List.map_filter (server_task_sent (target_endian K) (sv_inner v)) ts)"
proof -
  have "fed K (buf (sv_recv_state v)) (sv_recv_state v) []" using assms by (simp add: fed_def)
  with server_shared_recv.ledger [OF assms(3), of "buf (sv_recv_state v)"] server_shared_send.ledger [OF assms(3), of "sv_inner v"]
  show ?thesis by (auto simp: sum_opt_mset fed_def List.map_filter_simps)
qed

lemma server_act_at:
  "server_together K vs0 ts vs cs \<Longrightarrow> i < length ts \<Longrightarrow> ts ! i = t \<Longrightarrow> server_advance K t vs = (t', vs') \<Longrightarrow>
   server_together K vs0 (ts[i := t']) vs' (cs @ server_task_chunks K t vs)"
  using interleaves.act by fastforce

theorem server_tasks_exact_witness:
  "\<exists>ts v' s'. server_together sample_kernel (sample_server, sample_sys [([0, 0, 0, 0], MSG_NOTIFICATION, sample_sinfo)] 0)
      ts (v', s') [([0, 0, 0, 0], MSG_NOTIFICATION, sample_sinfo, None)]
    \<and> mset (List.map_filter server_task_result ts) = {#ServerNotification (parse_notification Little [0, 0, 0, 0])#}
    \<and> filter taken (trace s') = []"
proof -
  let ?K = sample_kernel and ?v = sample_server and ?s = "sample_sys [([0, 0, 0, 0], MSG_NOTIFICATION, sample_sinfo)] 0"
  let ?c = "([0, 0, 0, 0], MSG_NOTIFICATION, sample_sinfo, None) :: chunk"
  have fd: "sv_inner ?v = 3" and inv: "reassembly_inv (sv_recv_state ?v)" and b: "buf (sv_recv_state ?v) = []"
    by (simp_all add: sample_server_def reassembly_inv_default) (simp add: default_Reassembly_def)
  have "server_together ?K (?v, ?s) ([] @ [SvAwait]) (?v, ?s) []"
    by (rule interleaves.spawn [OF interleaves.start]) simp
  then have r0: "server_together ?K (?v, ?s) [SvAwait] (?v, ?s) []" by simp
  obtain s1 where p: "poll_ready ?K 3 READABLE ?s = (Ready, s1)" "kern s1 = kern ?s"
    by (simp add: poll_ready_sys sample_calls sample_sys_def)
  then have r1: "server_together ?K (?v, ?s) [SvGuard] (?v, s1) []"
    using server_act_at [OF r0, of 0 SvAwait SvGuard "(?v, s1)"] by (simp add: server_advance_def fd)
  have "fst (k_recvmsg ?K 3 65536 True (kern ?s)) = \<lparr>ro_ret = 4, ro_data = [0, 0, 0, 0], ro_from = [],
      ro_sinfo = sample_sinfo, ro_flags = MSG_NOTIFICATION\<rparr>"
    by (simp add: sample_defs)
  then have c: "server_task_chunks ?K SvGuard (?v, s1) = [?c]"
    by (simp add: fd read_chunks_def recv_answer_def p(2) RECV_WINDOW_def neg_def answer_chunk_def sample_sender Let_def)
  obtain t v' s' where adv: "server_advance ?K SvGuard (?v, s1) = (t, v', s')" by (metis surj_pair)
  have run: "server_together ?K (?v, ?s) [t] (v', s') [?c]"
    using server_act_at [OF r1 _ _ adv, of 0] c by simp
  have "fst (push_input Little [] ?c) = StepNotification (parse_notification Little [0, 0, 0, 0])"
    by (simp add: push_chunk_def MSG_NOTIFICATION_def)
  then have f: "List.map_filter server_step_result (fst (feed (push_input Little) [] [?c]))
      = [ServerNotification (parse_notification Little [0, 0, 0, 0])]"
    by (simp add: feed_one List.map_filter_simps del: feed.simps(2) push_input.simps)
  note x = server_tasks_exact [OF sample_recvmsg_ok inv run]
  then have "List.map_filter (server_task_sent Little 3) [t] = []"
    using f b by (cases t rule: server_task_result.cases) (auto simp: List.map_filter_simps)
  with x f b fd run show ?thesis
    by (intro exI [of _ "[t]"] exI [of _ v'] exI [of _ s']) (auto simp: sample_sys_def)
qed

end
