(* ===== verification/Channel.thy ===== *)
theory Channel
  imports Assoc_Recv Assoc_Send
begin

text \<open>
  Two associations and the network between them. The specification is a queue of messages: a send that
  returns a length adds its message at the end, a receive takes the first one. The detailed definitions
  implement it whatever the network does within its promise.
\<close>

section \<open>What the network promises\<close>

text \<open>
  What the network promises of a message that the kernel of the sender has taken and that of the
  receiver delivers as the chunks \<open>cs\<close>: the data chunks are the message in parts, in order, with the end
  mark on the last one only; the stream is the sender's, and the protocol identifier is the same four
  bytes in memory at both ends. Notifications may come anywhere between the parts.
\<close>

fun carried :: "endian \<Rightarrow> endian \<Rightarrow> call \<Rightarrow> chunk list \<Rightarrow> bool" where
  "carried e1 e2 (Call_sendmsg fd data wire flags sid ttl ctx ret) cs \<longleftrightarrow>
     is_record is_last_chunk (filter is_data_chunk cs) \<and> is_data_chunk (last cs)
     \<and> concat (map fst (filter is_data_chunk cs)) = data
     \<and> (case last cs of (d, fl, sinfo, addr) \<Rightarrow> sinfo_stream sinfo = sid
          \<and> ne_bytes e2 4 (sinfo_ppid sinfo) = ne_bytes e1 4 wire)"
| "carried e1 e2 _ cs \<longleftrightarrow> False"

section \<open>Sequences of sends and receives\<close>

text \<open>Sends one after the other, each polled at most the given number of times, and their outcomes.\<close>

fun send_each :: "('w, 'x) kernel_scheme \<Rightarrow> (nat \<times> bytes \<times> u16 \<times> u32 \<times> SendOptions) list \<Rightarrow> SctpAssociation \<times> 'w sys \<Rightarrow>
    (SctpError + usize) turn list \<times> SctpAssociation \<times> 'w sys" where
  "send_each K [] as = ([], as)"
| "send_each K ((n, data, sid, pp, opts) # ms) as = (case send_with K n data sid pp opts as of (r, as') \<Rightarrow>
     case send_each K ms as' of (rs, as'') \<Rightarrow> (r # rs, as''))"

fun recv_each :: "('w, 'x) kernel_scheme \<Rightarrow> nat list \<Rightarrow> SctpAssociation \<times> 'w sys \<Rightarrow>
    (SctpError + bytes \<times> RecvInfo) turn list \<times> SctpAssociation \<times> 'w sys" where
  "recv_each K [] as = ([], as)"
| "recv_each K (n # ns) as = (case recv K n as of (r, as') \<Rightarrow>
     case recv_each K ns as' of (rs, as'') \<Rightarrow> (r # rs, as''))"

text \<open>The messages of the sends that returned a length, and what a receive returned: data, stream and identifier.\<close>

fun sent_message :: "(nat \<times> bytes \<times> u16 \<times> u32 \<times> SendOptions) \<times> (SctpError + usize) turn \<Rightarrow> (bytes \<times> u16 \<times> u32) option" where
  "sent_message ((n, data, sid, pp, opts), Return (Inr m)) = Some (data, sid, pp)"
| "sent_message _ = None"

fun got_message :: "(SctpError + bytes \<times> RecvInfo) turn \<Rightarrow> (bytes \<times> u16 \<times> u32) option" where
  "got_message (Return (Inr (data, info))) = Some (data, stream info, ppid info)"
| "got_message _ = None"

definition queued :: "(nat \<times> bytes \<times> u16 \<times> u32 \<times> SendOptions) list \<Rightarrow> (SctpError + usize) turn list \<Rightarrow> (bytes \<times> u16 \<times> u32) list" where
  "queued ms rs = List.map_filter sent_message (zip ms rs)"

text \<open>A call that hands over a message.\<close>

definition hands_over :: "endian \<Rightarrow> call \<Rightarrow> bytes \<times> u16 \<times> u32 \<Rightarrow> bool" where
  "hands_over e c = (\<lambda>(data, sid, pp). \<exists>opts fd n. c = sendmsg_entry e data sid pp opts fd n)"

lemma send_each_queued:
  "send_each K ms (a, s) = (rs, a', s') \<Longrightarrow>
   a' = a \<and> (\<exists>new. filter taken (trace s') = filter taken (trace s) @ new
     \<and> list_all2 (hands_over (target_endian K)) new (queued ms rs))"
proof (induction ms arbitrary: s rs)
  case Nil
  then show ?case by (simp add: queued_def List.map_filter_simps)
next
  case (Cons m ms)
  obtain n data sid pp opts where m: "m = (n, data, sid, pp, opts)" by (cases m)
  obtain r b s1 where r: "send_with K n data sid pp opts (a, s) = (r, b, s1)" by (metis surj_pair)
  note one = assoc_send.run_accepted [OF r [unfolded send_with_def]]
  then have b: "b = a" by simp
  obtain rs1 where rs: "rs = r # rs1" and tl: "send_each K ms (a, s1) = (rs1, a', s')"
    using Cons.prems r b by (auto simp: m split: prod.splits)
  obtain new where new: "a' = a" "filter taken (trace s') = filter taken (trace s1) @ new"
    "list_all2 (hands_over (target_endian K)) new (queued ms rs1)"
    using Cons.IH [OF tl] by blast
  let ?e = "case r of Return (Inr k) \<Rightarrow> [sendmsg_entry (target_endian K) data sid pp opts (inner a) k] | _ \<Rightarrow> []"
  have "filter taken (trace s1) = filter taken (trace s) @ ?e" using one by (auto simp: accepted_by_def split: turn.splits sum.splits)
  moreover have "list_all2 (hands_over (target_endian K)) (?e @ new) (queued (m # ms) rs)"
    using new(3) by (auto simp: rs m queued_def List.map_filter_simps hands_over_def split: turn.splits sum.splits)
  ultimately show ?case using new(1,2) by auto
qed

text \<open>Chunks that make a message, and receives of one message after the other.\<close>

fun makes :: "endian \<Rightarrow> chunk list \<Rightarrow> bytes \<times> u16 \<times> u32 \<Rightarrow> bool" where
  "makes e cs (data, sid, pp) \<longleftrightarrow> is_record is_last_chunk (filter is_data_chunk cs) \<and> is_data_chunk (last cs)
     \<and> concat (map fst (filter is_data_chunk cs)) = data
     \<and> stream (fst (snd (message_of e [] (last cs)))) = sid \<and> ppid (fst (snd (message_of e [] (last cs)))) = pp"

lemma carried_makes:
  assumes "carried e1 e2 c cs" and "hands_over e1 c m"
  shows "makes e2 cs m"
proof -
  obtain data sid pp where m: "m = (data, sid, pp)" by (cases m)
  obtain d fl sinfo addr where l: "last cs = (d, fl, sinfo, addr)" by (cases "last cs")
  have w: "ne_bytes e2 4 (sinfo_ppid sinfo) = ne_bytes e1 4 (to_be e1 4 pp)" "sinfo_stream sinfo = sid"
    using assms l by (auto simp: m hands_over_def sendmsg_entry_def)
  then have "ppid (info_of e2 sinfo) = pp" using ppid_from_wire [of e2 sinfo e1 pp] by (simp add: info_of_def)
  with assms w l show ?thesis by (auto simp: m hands_over_def sendmsg_entry_def info_of_def)
qed

lemma carried_all_makes:
  assumes "list_all2 (carried e1 e2) new css" and "list_all2 (hands_over e1) new ms"
  shows "list_all2 (makes e2) css ms"
proof (rule list_all2_trans [OF carried_makes])
  show "list_all2 (\<lambda>cs c. carried e1 e2 c cs) css new"
    using assms(1) by (auto simp: list_all2_conv_all_nth)
qed (use assms(2) in auto)

lemma recv_each_makes:
  assumes "recvmsg_ok K"
  shows "reassembly_inv (recv_state a) \<Longrightarrow> buf (recv_state a) = [] \<Longrightarrow>
    list_all2 (makes (target_endian K)) css ms \<Longrightarrow> delivers K False (inner a) (kern s) (concat css @ rest) \<Longrightarrow>
    \<exists>qs a' s'. recv_each K (map length css) (a, s) = (qs, a', s') \<and> map got_message qs = map Some ms
      \<and> reassembly_inv (recv_state a') \<and> buf (recv_state a') = [] \<and> delivers K False (inner a') (kern s') rest"
proof (induction css arbitrary: ms a s)
  case Nil
  then show ?case by simp
next
  case (Cons cs css)
  obtain data sid pp ms' where ms: "ms = (data, sid, pp) # ms'"
    and c: "makes (target_endian K) cs (data, sid, pp)" and l: "list_all2 (makes (target_endian K)) css ms'"
    using Cons.prems(3) by (cases ms) auto
  obtain a1 s1 where r: "recv K (length cs) (a, s) =
      (Return (Inr (data, fst (snd (message_of (target_endian K) [] (last cs))))), a1, s1)"
    and i: "reassembly_inv (recv_state a1)" "delivers K False (inner a1) (kern s1) (concat css @ rest)" "buf (recv_state a1) = []"
    using recv_delivers [OF assms Cons.prems(1), of s cs "concat css @ rest"] Cons.prems(2,4) c by auto
  from Cons.IH [OF i(1,3) l i(2)] r c ms show ?case by auto
qed

section \<open>Property\<close>

text \<open>
  C2: messages arrive in the order they were sent. Take any sequence of sends of one association, of which
  some may fail or be dropped, and any number \<open>k\<close> of the messages the network carries to the far
  association. The first \<open>k\<close> receives there return exactly the first \<open>k\<close> messages of the sends that
  returned a length, in order, each whole, with its stream and protocol identifier; the others are still to
  be delivered. So the pair of associations implements a queue of messages.
\<close>

theorem messages_in_order:
  assumes "send_each K1 ms (a, s) = (rs, a', s')"
    and "filter taken (trace s') = filter taken (trace s) @ new"
    and "list_all2 (carried (target_endian K1) (target_endian K2)) new css"
    and "recvmsg_ok K2" and "reassembly_inv (recv_state b)" and "buf (recv_state b) = []"
    and "delivers K2 False (inner b) (kern r) (concat css)"
  shows "\<exists>qs b' r'. recv_each K2 (map length (take k css)) (b, r) = (qs, b', r')
    \<and> map got_message qs = map Some (take k (queued ms rs))
    \<and> buf (recv_state b') = [] \<and> delivers K2 False (inner b') (kern r') (concat (drop k css))"
proof -
  have h: "list_all2 (hands_over (target_endian K1)) new (queued ms rs)"
    using send_each_queued [OF assms(1)] assms(2) by auto
  have "list_all2 (makes (target_endian K2)) css (queued ms rs)" by (rule carried_all_makes [OF assms(3) h])
  then have m: "list_all2 (makes (target_endian K2)) (take k css) (take k (queued ms rs))"
    by (rule list_all2_takeI)
  have "concat (take k css) @ concat (drop k css) = concat css"
    by (metis append_take_drop_id concat_append)
  with recv_each_makes [OF assms(4-6) m, of r "concat (drop k css)"] assms(7) show ?thesis by auto
qed

theorem messages_in_order_witness:
  "\<exists>qs b' r'. recv_each sample_kernel [3] (new_association 3, sample_sys sample_queue 0) = (qs, b', r')
    \<and> map got_message qs = [Some ([170, 187, 188], 7, 18)]"
proof -
  let ?ms = "[(1, [170, 187, 188], 7, 18, default_SendOptions), (1, [1], 7, 18, default_SendOptions)]"
  let ?cs = "[([170], 0, sample_sinfo, None), ([0, 0, 0, 0], MSG_NOTIFICATION, sample_sinfo, None),
    ([187, 188], MSG_EOR, sample_sinfo, None)] :: chunk list"
  have s: "\<exists>s'. send_each sample_kernel ?ms (new_association 3, sample_sys [] 1) = ([Return (Inr 3), Again], new_association 3, s')
      \<and> filter taken (trace s') = [Call_sendmsg 3 [170, 187, 188] (to_be Little 4 18) 0 7 0 0 3]"
    by (simp add: send_with_def send_with_turn_def poll_ready_def syscall_def sample_defs new_association_def neg_def
        opts_sinfo_flags_def default_SendOptions_def is_would_block_def)
  then obtain s' where c: "send_each sample_kernel ?ms (new_association 3, sample_sys [] 1) = ([Return (Inr 3), Again], new_association 3, s')"
    and f: "filter taken (trace s') = filter taken (trace (sample_sys [] 1)) @ [Call_sendmsg 3 [170, 187, 188] (to_be Little 4 18) 0 7 0 0 3]"
    by (auto simp: sample_sys_def)
  have inv: "reassembly_inv (recv_state (new_association 3))" "buf (recv_state (new_association 3)) = []"
    by (simp_all add: new_association_def reassembly_inv_default) (simp add: default_Reassembly_def)
  have car: "list_all2 (carried (target_endian sample_kernel) (target_endian sample_kernel))
      [Call_sendmsg 3 [170, 187, 188] (to_be Little 4 18) 0 7 0 0 3] [?cs]"
    by (simp add: is_record_def MSG_EOR_def MSG_NOTIFICATION_def sample_sinfo_def default_SctpSndRcvInfo_def)
  have del: "delivers sample_kernel False (inner (new_association 3)) (kern (sample_sys sample_queue 0)) (concat [?cs])"
    by (simp only: new_association_def SctpAssociation.simps concat.simps append_Nil2 sample_delivers)
  have q: "queued ?ms [Return (Inr 3), Again] = [([170, 187, 188], 7, 18)]"
    by (simp add: queued_def List.map_filter_simps)
  have n: "map length (take 1 [?cs]) = [3]" "take 1 [([170, 187, 188], 7, 18)] = [([170, 187, 188], 7, 18)]" by simp_all
  show ?thesis
    using messages_in_order [OF c f car sample_recvmsg_ok inv del, of 1] unfolding q n by auto
qed

end
