(* ===== verification/Drain.thy ===== *)
theory Drain
  imports Tasks
begin

text \<open>
  The end of an association as its reader sees it: a task that calls \<open>recv\<close> until it fails, as the tasks of
  \<open>examples/\<close> do, gets every message that was queued when the association ended and then \<open>NotConnected\<close>,
  in a number of polls that the queue bounds.
\<close>

section \<open>Receiving until it fails\<close>

text \<open>
  \<open>while let Ok(m) = recv().await\<close>, polled at most the given number of times: the messages received and, if
  the loop has ended, the error that ended it.
\<close>

fun while_ok :: "('s \<Rightarrow> ('e + 'm) turn \<times> 's) \<Rightarrow> nat \<Rightarrow> 's \<Rightarrow> 'm list \<times> 'e option \<times> 's" where
  "while_ok t 0 s = ([], None, s)"
| "while_ok t (Suc n) s = (case t s of
     (Return (Inr m), s') \<Rightarrow> (case while_ok t n s' of (ms, e, s'') \<Rightarrow> (m # ms, e, s''))
   | (Return (Inl e), s') \<Rightarrow> ([], Some e, s')
   | (Again, s') \<Rightarrow> while_ok t n s'
   | (Panicked, s') \<Rightarrow> ([], None, s'))"

text \<open>The kernel hands out the given chunks, one at each poll, and is then ready once more with nothing to read.\<close>

fun drains :: "('w, 'x) kernel_scheme \<Rightarrow> i32 \<Rightarrow> 'w \<Rightarrow> chunk list \<Rightarrow> bool" where
  "drains K fd w [] \<longleftrightarrow>
     (case k_ready K fd READABLE w of (rd, w1) \<Rightarrow>
      case k_recvmsg K fd RECV_WINDOW False w1 of (out, w2) \<Rightarrow>
        rd = Ready \<and> neg (ro_ret out) \<and> is_would_block K (Os (k_errno K w2)))"
| "drains K fd w (c # cs) \<longleftrightarrow>
     (case k_ready K fd READABLE w of (rd, w1) \<Rightarrow>
      case k_recvmsg K fd RECV_WINDOW False w1 of (out, w2) \<Rightarrow>
        rd = Ready \<and> \<not> neg (ro_ret out) \<and> ro_ret out \<noteq> 0 \<and> answer_chunk K False out = c \<and> drains K fd w2 cs)"

definition says_ended :: "endian \<Rightarrow> chunk \<Rightarrow> bool" where
  "says_ended e c \<longleftrightarrow> \<not> is_data_chunk c \<and> ends (parse_notification e (fst c))"

lemma push_notification:
  "\<not> is_data_chunk c \<Longrightarrow> push_input e b c = (StepNotification (parse_notification e (fst c)), b)"
  by (cases c) (simp add: push_chunk_def)

section \<open>A turn of the reader\<close>

text \<open>What a step of the accumulator is for a reader that skips notifications.\<close>

fun reader_turn :: "Step \<Rightarrow> (SctpError + bytes \<times> RecvInfo) turn" where
  "reader_turn (Complete d info addr) = Return (Inr (d, info))"
| "reader_turn (StepErr e) = Return (Inl e)"
| "reader_turn _ = Again"

lemma recv_turn_reads:
  assumes "recvmsg_ok K" and "reassembly_inv (recv_state a)" and "drains K (inner a) (kern s) (c # cs)"
  shows "\<exists>a' s'. recv_turn K (a, s) = (reader_turn (fst (push_input (target_endian K) (buf (recv_state a)) c)), a', s')
    \<and> reassembly_inv (recv_state a') \<and> drains K (inner a') (kern s') cs
    \<and> buf (recv_state a') = snd (push_input (target_endian K) (buf (recv_state a)) c)
    \<and> (ended a' \<longleftrightarrow> ended a \<or> says_ended (target_endian K) c)"
proof -
  let ?e = "target_endian K" and ?b = "buf (recv_state a)" and ?s1 = "snd (poll_ready K (inner a) READABLE s)"
  obtain w1 out w2 where k: "k_ready K (inner a) READABLE (kern s) = (Ready, w1)"
    "k_recvmsg K (inner a) RECV_WINDOW False w1 = (out, w2)" "\<not> neg (ro_ret out)" "ro_ret out \<noteq> 0"
    "answer_chunk K False out = c" "drains K (inner a) w2 cs"
    using assms(3) by (auto split: prod.splits)
  have "delivers K False (inner a) (kern s) [c]" using k by simp
  then obtain s1 r' s' where d: "poll_ready K (inner a) READABLE s = (Ready, s1)"
    "recv_step K (inner a) False (recv_state a) s1 = (Some (fst (push_input ?e ?b c)), r', s')"
    "buf r' = snd (push_input ?e ?b c)" "reassembly_inv r'"
    using delivers_step [OF assms(1,2), of False "inner a" s c "[]"] by auto
  have w: "kern s' = w2"
    using d(1,2) recv_step_sys [of K "inner a" False "recv_state a" s1] k(1,2) by (auto simp: after_recv_def poll_ready_sys)
  have n: "says_ended ?e c \<longleftrightarrow> (\<exists>n. fst (push_input ?e ?b c) = StepNotification n \<and> ends n)"
  proof (cases "is_data_chunk c")
    case False
    then show ?thesis by (simp add: says_ended_def push_notification)
  next
    case True
    then show ?thesis
      using push_input_cases(2,3) [of ?e ?b c "fst (push_input ?e ?b c)" "snd (push_input ?e ?b c)"]
      by (cases "is_last_chunk c") (auto simp: says_ended_def)
  qed
  have "fst (push_input ?e ?b c) \<noteq> WouldBlock" by (cases c) (auto simp: push_chunk_def Let_def)
  with d k(6) w n show ?thesis
    by (cases "fst (push_input ?e ?b c)") (auto simp: recv_turn_def recv_msg_turn_def Let_def)
qed

lemma recv_turn_drained:
  assumes "drains K (inner a) (kern s) []" and "ended a"
  shows "\<exists>r s'. recv_turn K (a, s) = (Return (Inl NotConnected), a\<lparr>recv_state := r\<rparr>, s')
    \<and> kern s' = snd (k_recvmsg K (inner a) RECV_WINDOW False (snd (k_ready K (inner a) READABLE (kern s))))
    \<and> trace s' = trace s @ [Call_ready (inner a) READABLE, Call_recvmsg (inner a) RECV_WINDOW False]"
proof -
  obtain w1 out w2 where k: "k_ready K (inner a) READABLE (kern s) = (Ready, w1)"
    "k_recvmsg K (inner a) RECV_WINDOW False w1 = (out, w2)" "neg (ro_ret out)" "is_would_block K (Os (k_errno K w2))"
    using assms(1) by (auto split: prod.splits)
  obtain s1 where p: "poll_ready K (inner a) READABLE s = (Ready, s1)" "kern s1 = w1"
    "trace s1 = trace s @ [Call_ready (inner a) READABLE]"
    by (rule that [of "snd (poll_ready K (inner a) READABLE s)"]) (simp_all add: poll_ready_sys k(1))
  have a: "recv_answer K (inner a) False s1 = out" "kern (after_recv K (inner a) False s1) = w2"
    using k(2) p(2) by (simp_all add: recv_answer_def after_recv_def)
  with recv_step_fails [of K "inner a" False s1] k(3,4)
  have "fst (recv_step K (inner a) False (recv_state a) s1) = Some WouldBlock" by (simp add: last_os_error_def)
  then obtain r where "recv_step K (inner a) False (recv_state a) s1 = (Some WouldBlock, r, after_recv K (inner a) False s1)"
    by (metis recv_step_sys prod.collapse)
  with p assms(2) k(1,2) show ?thesis
    by (intro exI [of _ r] exI [of _ "after_recv K (inner a) False s1"])
      (simp add: recv_turn_def recv_msg_turn_def Let_def after_recv_def)
qed

section \<open>The reader\<close>

lemma while_ok_drains:
  assumes "recvmsg_ok K"
  shows "reassembly_inv (recv_state a) \<Longrightarrow> drains K (inner a) (kern s) cs \<Longrightarrow>
    ended a \<or> (\<exists>c \<in> set cs. says_ended (target_endian K) c) \<Longrightarrow>
    \<exists>as'. while_ok (recv_turn K) (Suc (length cs)) (a, s) =
      (map (\<lambda>(d, info, addr). (d, info)) (List.map_filter step_message (fst (feed (push_input (target_endian K)) (buf (recv_state a)) cs))),
       Some NotConnected, as')"
proof (induction cs arbitrary: a s)
  case Nil
  with recv_turn_drained [of K a s] show ?case by (fastforce simp: List.map_filter_simps)
next
  case (Cons c cs)
  let ?st = "fst (push_input (target_endian K) (buf (recv_state a)) c)"
  obtain a1 s1 where t: "recv_turn K (a, s) = (reader_turn ?st, a1, s1)" "reassembly_inv (recv_state a1)"
    "drains K (inner a1) (kern s1) cs" "buf (recv_state a1) = snd (push_input (target_endian K) (buf (recv_state a)) c)"
    "ended a1 \<longleftrightarrow> ended a \<or> says_ended (target_endian K) c"
    using recv_turn_reads [OF assms Cons.prems(1,2)] by blast
  obtain as' where w: "while_ok (recv_turn K) (Suc (length cs)) (a1, s1) =
      (map (\<lambda>(d, info, addr). (d, info)) (List.map_filter step_message
         (fst (feed (push_input (target_endian K)) (buf (recv_state a1)) cs))), Some NotConnected, as')"
    using Cons.IH [OF t(2,3)] Cons.prems(3) t(5) by auto
  have "?st \<noteq> WouldBlock" "\<forall>e. ?st \<noteq> StepErr e" by (cases c; auto simp: push_chunk_def Let_def)+
  with t(1,4) w show ?case
    by (subst while_ok.simps(2)) (cases ?st; auto simp: List.map_filter_simps simp del: while_ok.simps push_input.simps feed.simps(2))
qed

section \<open>After the end\<close>

text \<open>
  What the reactor documents: a readiness it has reported is kept, whatever is received, until it is
  cleared. \<open>C\<close> are the states of the world in which the descriptor is cached as readable.
\<close>

definition keeps_readiness :: "('w, 'x) kernel_scheme \<Rightarrow> i32 \<Rightarrow> 'w set \<Rightarrow> bool" where
  "keeps_readiness K fd C \<longleftrightarrow>
     (\<forall>w. fst (k_ready K fd READABLE w) = Ready \<longrightarrow> snd (k_ready K fd READABLE w) \<in> C) \<and>
     (\<forall>w \<in> C. fst (k_ready K fd READABLE w) = Ready \<and> snd (k_recvmsg K fd RECV_WINDOW False w) \<in> C)"

text \<open>
  A queue that is empty for good, as that of an association that is over once it is drained. \<open>E\<close> are the
  states in which it is: every receive would block. Nothing is said of the readiness.
\<close>

definition queue_empty :: "('w, 'x) kernel_scheme \<Rightarrow> i32 \<Rightarrow> 'w set \<Rightarrow> bool" where
  "queue_empty K fd E \<longleftrightarrow> (\<forall>w \<in> E. snd (k_ready K fd READABLE w) \<in> E
     \<and> (case k_recvmsg K fd RECV_WINDOW False w of (out, w') \<Rightarrow>
          neg (ro_ret out) \<and> is_would_block K (Os (k_errno K w')) \<and> w' \<in> E))"

lemma cached_drains:
  assumes "keeps_readiness K fd C" and "queue_empty K fd E" and "w \<in> C" and "w \<in> E"
  shows "drains K fd w []"
    and "snd (k_recvmsg K fd RECV_WINDOW False (snd (k_ready K fd READABLE w))) \<in> C \<inter> E"
proof -
  obtain rd w1 where r: "k_ready K fd READABLE w = (rd, w1)" by fastforce
  obtain out w2 where o: "k_recvmsg K fd RECV_WINDOW False w1 = (out, w2)" by fastforce
  have "rd = Ready" "w1 \<in> C" "w1 \<in> E"
    using assms r unfolding keeps_readiness_def queue_empty_def by (metis fst_conv, metis fst_conv snd_conv, metis snd_conv)
  with assms r o show "drains K fd w []"
    "snd (k_recvmsg K fd RECV_WINDOW False (snd (k_ready K fd READABLE w))) \<in> C \<inter> E"
    by (auto simp: keeps_readiness_def queue_empty_def)
qed

lemma receives_after_end:
  "keeps_readiness K (inner a) C \<Longrightarrow> queue_empty K (inner a) E \<Longrightarrow> ended a \<Longrightarrow> kern s \<in> C \<inter> E \<Longrightarrow> \<forall>n \<in> set ns. 0 < n \<Longrightarrow>
   \<exists>a' s'. receives (recv_turn K) ns (a, s) = (replicate (length ns) (Inl NotConnected), a', s')
     \<and> ended a' \<and> trace s' = trace s @
        concat (replicate (length ns) [Call_ready (inner a) READABLE, Call_recvmsg (inner a) RECV_WINDOW False])"
proof (induction ns arbitrary: a s)
  case (Cons n ns)
  then obtain m where n: "n = Suc m" by (cases n) auto
  have "kern s \<in> C" "kern s \<in> E" using Cons.prems(4) by simp_all
  note d = cached_drains [OF Cons.prems(1,2) this]
  from recv_turn_drained [OF d(1) Cons.prems(3)] d(2) obtain r s1 where
    t: "recv_turn K (a, s) = (Return (Inl NotConnected), a\<lparr>recv_state := r\<rparr>, s1)" "kern s1 \<in> C \<inter> E"
    and tr: "trace s1 = trace s @ [Call_ready (inner a) READABLE, Call_recvmsg (inner a) RECV_WINDOW False]" by auto
  with Cons.IH [of "a\<lparr>recv_state := r\<rparr>" s1] Cons.prems show ?case by (auto simp: n)
qed auto

text \<open>A receive that returns something has been told that the socket is readable.\<close>

lemma recv_msg_turn_returns:
  assumes "recv_msg_turn K (a, s) = (Return (Inr x), a', s')"
  shows "fst (k_ready K (inner a) READABLE (kern s)) = Ready" and "inner a' = inner a"
    and "kern s' = snd (k_recvmsg K (inner a) RECV_WINDOW False (snd (k_ready K (inner a) READABLE (kern s))))"
proof -
  obtain rd s1 where p: "poll_ready K (inner a) READABLE s = (rd, s1)" by fastforce
  obtain st r s2 where step: "recv_step K (inner a) False (recv_state a) s1 = (st, r, s2)" by (metis surj_pair)
  have rd: "rd = Ready" using assms p by (cases rd) (simp_all add: recv_msg_turn_def)
  with assms p step have "s' = s2 \<and> inner a' = inner a"
    by (auto simp: recv_msg_turn_def Let_def split: option.splits Step.splits if_splits)
  moreover have "s2 = after_recv K (inner a) False s1"
    using recv_step_sys [of K "inner a" False "recv_state a" s1] step by simp
  ultimately show "fst (k_ready K (inner a) READABLE (kern s)) = Ready" "inner a' = inner a"
    "kern s' = snd (k_recvmsg K (inner a) RECV_WINDOW False (snd (k_ready K (inner a) READABLE (kern s))))"
    using p rd by (auto simp: poll_ready_sys after_recv_def)
qed

lemma recv_msg_turn_cached:
  "keeps_readiness K (inner a) C \<Longrightarrow> recv_msg_turn K (a, s) = (Return (Inr x), a', s') \<Longrightarrow> kern s' \<in> C"
  by (frule recv_msg_turn_returns(1), drule recv_msg_turn_returns(3)) (auto simp: keeps_readiness_def)

section \<open>Properties\<close>

text \<open>The sample kernel with a socket that is always readable.\<close>

definition brisk_kernel :: "sample_world kernel" where
  "brisk_kernel = sample_kernel\<lparr>k_ready := (\<lambda>_ _ w. (Ready, w))\<rparr>"

lemma brisk_recvmsg_ok: "recvmsg_ok brisk_kernel"
  using sample_recvmsg_ok by (simp add: recvmsg_ok_def brisk_kernel_def)

text \<open>
  C14: the reader of an association ends. When the kernel has the chunks \<open>cs\<close> queued and then nothing more,
  and the association has ended or one of the chunks says so, a task that receives until it fails has after
  one poll more than there are chunks received exactly the complete messages among them, each whole, in order
  and with the metadata of its last part, and the error that ends it is \<open>NotConnected\<close>: it loses no message
  that was queued behind the end and waits for none that cannot come.
\<close>

theorem reader_terminates:
  assumes "recvmsg_ok K" and "reassembly_inv (recv_state a)" and "buf (recv_state a) = []"
    and "drains K (inner a) (kern s) cs"
    and "ended a \<or> (\<exists>c \<in> set cs. \<not> is_data_chunk c \<and> ends (parse_notification (target_endian K) (fst c)))"
    and "filter is_data_chunk cs = concat gs @ rest"
    and "\<forall>g \<in> set gs. is_record is_last_chunk g" and "\<forall>c \<in> set rest. \<not> is_last_chunk c"
  shows "\<exists>as'. while_ok (recv_turn K) (Suc (length cs)) (a, s) =
    (map (\<lambda>g. (concat (map fst g), fst (snd (message_of (target_endian K) [] (last g))))) gs, Some NotConnected, as')"
proof -
  have "(\<lambda>(d, info, addr). (d, info)) (message_of e b c) = (b, fst (snd (message_of e [] c)))" for e b c
    by (cases c) simp
  with while_ok_drains [OF assms(1,2,4)] assms(3,5) reassembly.feed_records [OF assms(6-8), of "target_endian K"]
  show ?thesis by (auto simp: says_ended_def comp_def)
qed

theorem reader_terminates_witness:
  "\<exists>as'. while_ok (recv_turn brisk_kernel) 4 (new_association 3, sample_sys [([170], MSG_EOR, sample_sinfo),
      (assoc_change_bytes Little sample_change, MSG_NOTIFICATION, sample_sinfo), ([187], MSG_EOR, sample_sinfo)] 0)
    = ([([170], \<lparr>stream = 7, ppid = 18, assoc_id = 42\<rparr>), ([187], \<lparr>stream = 7, ppid = 18, assoc_id = 42\<rparr>)], Some NotConnected, as')"
proof -
  let ?n = "assoc_change_bytes Little sample_change"
  let ?s = "sample_sys [([170], MSG_EOR, sample_sinfo), (?n, MSG_NOTIFICATION, sample_sinfo), ([187], MSG_EOR, sample_sinfo)] 0"
  let ?c1 = "([170], MSG_EOR, sample_sinfo, None) :: chunk" and ?c2 = "(?n, MSG_NOTIFICATION, sample_sinfo, None) :: chunk"
    and ?c3 = "([187], MSG_EOR, sample_sinfo, None) :: chunk"
  have inv: "reassembly_inv (recv_state (new_association 3))" "buf (recv_state (new_association 3)) = []"
    and fd: "inner (new_association 3) = 3"
    by (simp_all add: new_association_def reassembly_inv_default) (simp add: default_Reassembly_def)
  have "length ?n = 20" by (simp add: assoc_change_bytes_def)
  then have d: "drains brisk_kernel (inner (new_association 3)) (kern ?s) [?c1, ?c2, ?c3]"
    by (simp add: fd brisk_kernel_def sample_defs RECV_WINDOW_def neg_def answer_chunk_def sender_of_def is_would_block_def)
  have e: "ended (new_association 3) \<or> (\<exists>c \<in> set [?c1, ?c2, ?c3]. \<not> is_data_chunk c
      \<and> ends (parse_notification (target_endian brisk_kernel) (fst c)))"
    using sample_change_lost by (simp add: MSG_NOTIFICATION_def brisk_kernel_def)
  have f: "filter is_data_chunk [?c1, ?c2, ?c3] = concat [[?c1], [?c3]] @ []"
    "\<forall>g \<in> set [[?c1], [?c3]]. is_record is_last_chunk g" "\<forall>c \<in> set ([] :: chunk list). \<not> is_last_chunk c"
    by (simp_all add: MSG_NOTIFICATION_def MSG_EOR_def is_record_def)
  note x = reader_terminates [OF brisk_recvmsg_ok inv d e f]
  have "Suc (length [?c1, ?c2, ?c3]) = 4" by simp
  with x show ?thesis
    by (simp only:) (simp add: brisk_kernel_def info_of_def sample_sinfo_def default_SctpSndRcvInfo_def from_be_to_be)
qed

text \<open>
  C15: an association that is over stays over for its reader. Let a receive return the notification that the
  association is lost, shut down or not set up, let the reactor keep the readiness it reported until it is
  cleared, and let the queue be empty from then on. Then every receive that follows, however many there are
  and however often each would be polled, returns \<open>NotConnected\<close> at its first poll, having asked for the
  readiness and received once; none clears the readiness that the next one needs, and the mark is never
  taken back. The receives are one after another and nothing else clears the readiness: a receive of another
  task that found the queue empty before the mark was set does, and then the next one waits
  (\<open>ended_receive_waits\<close>).
\<close>

theorem stays_ended:
  assumes "recv_msg_turn K (a, s) = (Return (Inr (RecvNotification (AssocChange c))), a1, s1)"
    and "state c \<in> {CommLost, ShutdownComp, CantStrAssoc}"
    and "keeps_readiness K (inner a) C" and "queue_empty K (inner a) E" and "kern s1 \<in> E"
    and "\<forall>n \<in> set ns. 0 < n"
  shows "\<exists>a' s'. receives (recv_turn K) ns (a1, s1) = (replicate (length ns) (Inl NotConnected), a', s') \<and> ended a'
    \<and> trace s' = trace s1 @
        concat (replicate (length ns) [Call_ready (inner a) READABLE, Call_recvmsg (inner a) RECV_WINDOW False])"
proof -
  have "ended a1" using ended_turn [OF assms(1)] assms(2) by (auto simp: ends_iff)
  then show ?thesis
    using receives_after_end [of K a1 C E s1 ns] recv_msg_turn_cached [OF assms(3,1)] recv_msg_turn_returns(2) [OF assms(1)] assms(3-6) by simp
qed

theorem stays_ended_witness:
  "\<exists>a1 s1 a' s'. recv_msg_turn edge_kernel (new_association 3, sample_sys [(assoc_change_bytes Little sample_change, MSG_NOTIFICATION, sample_sinfo)] 0)
        = (Return (Inr (RecvNotification (parse_notification Little (assoc_change_bytes Little sample_change)))), a1, s1)
    \<and> receives (recv_turn edge_kernel) [1, 5, 1] (a1, s1) = ([Inl NotConnected, Inl NotConnected, Inl NotConnected], a', s')"
proof -
  let ?b = "assoc_change_bytes Little sample_change"
  let ?a = "new_association 3" and ?s = "sample_sys [(?b, MSG_NOTIFICATION, sample_sinfo)] 0"
  let ?c = "(?b, MSG_NOTIFICATION, sample_sinfo, None) :: chunk"
  have len: "length ?b = 20" by simp
  have inv: "reassembly_inv (recv_state ?a)" and fd: "inner ?a = 3"
    by (simp_all add: new_association_def reassembly_inv_default)
  have del: "delivers edge_kernel False (inner ?a) (kern ?s) [?c]"
    using len by (simp add: fd edge_calls) (simp add: sample_defs RECV_WINDOW_def neg_def answer_chunk_def sender_of_def)
  have push: "fst (push_input Little b ?c) = StepNotification (parse_notification Little ?b)" for b
    by (simp add: push_chunk_def MSG_NOTIFICATION_def)
  obtain t a1 s1 where turn: "recv_msg_turn edge_kernel (?a, ?s) = (t, a1, s1)" by (metis surj_pair)
  have t: "t = Return (Inr (RecvNotification (parse_notification Little ?b)))"
    using delivers_step [OF edge_recvmsg_ok inv del] turn push
    by (auto simp: recv_msg_turn_def Let_def edge_calls split: prod.splits readiness.splits)
  have k: "kern s1 \<in> {w. inq w = []}"
    using recv_msg_turn_returns(3) [OF turn [unfolded t]] len
    by (simp add: fd edge_calls) (simp add: sample_defs RECV_WINDOW_def)
  have c: "keeps_readiness edge_kernel (inner ?a) {w. edge w}"
    by (auto simp: keeps_readiness_def edge_calls) (auto simp: sample_defs Let_def split: list.splits)
  have e: "queue_empty edge_kernel (inner ?a) {w. inq w = []}"
    by (auto simp: queue_empty_def edge_calls is_would_block_def) (auto simp: sample_defs neg_def)
  have "\<forall>n \<in> set [1, 5, 1]. 0 < (n :: nat)" by simp
  from stays_ended [OF turn [unfolded t sample_change_lost] _ c e k this] turn [unfolded t] show ?thesis
    by (auto simp: numeral_eq_Suc)
qed

end
