(* ===== verification/Objects.thy ===== *)
theory Objects
  imports Assoc_Recv Assoc_Send Server
begin

text \<open>
  The values that an association or a one-to-many server can have in the life of a process: what the
  constructors of the crate return and what its methods leave, in any order and in any state of the world.
  The crate has no constructor but these, so a property of all of them holds of every value of the type.
\<close>

section \<open>Lives\<close>

inductive server_lives :: "('w, 'x) kernel_scheme \<Rightarrow> SctpServer \<Rightarrow> bool" for K where
  bound: "server_bind_impl K addrs config s = (Inr v, s') \<Longrightarrow> server_lives K v"
| received: "server_lives K v \<Longrightarrow> run_turns (server_recv_turn K) n (v, s) = (t, v', s') \<Longrightarrow> server_lives K v'"
| sent: "server_lives K v \<Longrightarrow> server_send_with K n aid data sid pp opts (v, s) = (u, v', s') \<Longrightarrow> server_lives K v'"

inductive assoc_lives :: "('w, 'x) kernel_scheme \<Rightarrow> SctpAssociation \<Rightarrow> bool" for K where
  connected: "connect_bound K n local addrs config s = (Return (Inr a), s') \<Longrightarrow> assoc_lives K a"
| accepted: "accept K l n s = (Return (Inr (a, peer)), s') \<Longrightarrow> assoc_lives K a"
| peeled_off: "server_lives K v \<Longrightarrow> peeloff K v aid s = (Inr a, s') \<Longrightarrow> assoc_lives K a"
| received_msg: "assoc_lives K a \<Longrightarrow> recv_msg K n (a, s) = (t, a', s') \<Longrightarrow> assoc_lives K a'"
| received: "assoc_lives K a \<Longrightarrow> recv K n (a, s) = (t', a', s') \<Longrightarrow> assoc_lives K a'"
| sent: "assoc_lives K a \<Longrightarrow> send_with K n data sid pp opts (a, s) = (u, a', s') \<Longrightarrow> assoc_lives K a'"
| aborted: "assoc_lives K a \<Longrightarrow> abort_association K n (a, s) = (z, a', s') \<Longrightarrow> assoc_lives K a'"

section \<open>The constructors\<close>

lemma checked_nonneg: "checked K m s = (Inr r, s') \<Longrightarrow> \<not> neg r"
  by (auto simp: checked_def check_ret_def split: prod.splits if_splits)

lemma connect_bound_makes:
  assumes "connect_bound K n local addrs config s = (Return (Inr a), s')"
  shows "a = new_association (inner a) \<and> \<not> neg (inner a)"
proof -
  obtain fd s1 where start: "connect_start K local addrs config s = (Inr fd, s1)" and a: "a = new_association fd"
    using assms by (auto simp: connect_bound_def split: prod.splits sum.splits turn.splits)
  then have "addrs \<noteq> []" "\<not> ports_differ local" by (auto simp: connect_start_def err_def split: if_splits)
  with start have "\<not> neg fd"
    by (auto simp: connect_start_rest elim!: and_then_cases dest: checked_nonneg)
      (auto simp: connect_rest_def prog_apply elim!: and_then_cases dest: checked_nonneg)
  with a show ?thesis by (simp add: new_association_def)
qed

lemma from_raw_fd_makes: "from_raw_fd K fd s = (Inr a, s') \<Longrightarrow> a = new_association fd"
  by (erule from_raw_fd_cases) auto

lemma accept_makes:
  assumes "accept K l n s = (Return (Inr (a, peer)), s')"
  shows "a = new_association (inner a) \<and> \<not> neg (inner a)"
proof -
  obtain s0 where "accept_turn K l s0 = (Return (Inr (a, peer)), s')"
    using run_turns_Return assms unfolding accept_def by metis
  then obtain fd s2 where "\<not> neg fd" "from_raw_fd K fd s2 = (Inr a, s')"
    by (auto simp: accept_turn_def Let_def split: prod.splits readiness.splits sum.splits if_splits)
  with from_raw_fd_makes show ?thesis by (fastforce simp: new_association_def)
qed

lemma peeloff_makes:
  assumes "peeloff K v aid s = (Inr a, s')"
  shows "a = new_association (inner a) \<and> \<not> neg (inner a)"
  using assms unfolding peeloff_def
  by (cases rule: and_then_cases) (auto dest!: from_raw_fd_makes checked_nonneg simp: new_association_def)

lemma server_bind_makes:
  assumes "server_bind_impl K addrs config s = (Inr v, s')"
  shows "sv_recv_state v = default_Reassembly \<and> \<not> neg (sv_inner v)"
  using assms unfolding server_bind_impl_def
  by (auto simp: err_def Let_def split: list.splits sum.splits prod.splits elim!: and_then_cases dest!: checked_nonneg)

section \<open>The methods\<close>

definition assoc_sound :: "SctpAssociation \<Rightarrow> bool" where
  "assoc_sound a \<longleftrightarrow> \<not> neg (inner a) \<and> reassembly_inv (recv_state a)"

lemma assoc_sound_new: "a = new_association (inner a) \<and> \<not> neg (inner a) \<Longrightarrow> assoc_sound a"
  by (metis SctpAssociation.select_convs(2) assoc_sound_def new_association_def reassembly_inv_default)

lemma recv_msg_turn_inner: "recv_msg_turn K (a, s) = (t, a', s') \<Longrightarrow> inner a' = inner a"
  by (auto simp: recv_msg_turn_def Let_def split: prod.splits readiness.splits option.splits Step.splits if_splits)

lemma recv_msg_turn_sound:
  assumes "recvmsg_ok K" and "assoc_sound (fst as)"
  shows "assoc_sound (fst (snd (recv_msg_turn K as))) \<and> fst (recv_msg_turn K as) \<noteq> Panicked"
proof -
  obtain t a' s' where t: "recv_msg_turn K as = (t, a', s')" by (metis surj_pair)
  have "recv_inv K as" using assms by (cases as) (simp add: recv_inv_def assoc_sound_def)
  with assoc_recv.turn_feeds [OF _ t] have "t \<noteq> Panicked" "reassembly_inv (recv_state a')" by (auto simp: recv_inv_def)
  with t recv_msg_turn_inner [of K "fst as" "snd as" t a' s'] assms(2) show ?thesis by (simp add: assoc_sound_def)
qed

lemma recv_turn_sound:
  assumes "recvmsg_ok K" and "assoc_sound (fst as)"
  shows "assoc_sound (fst (snd (recv_turn K as))) \<and> fst (recv_turn K as) \<noteq> Panicked"
  using recv_msg_turn_sound [OF assms]
  by (auto simp: recv_turn_def split: prod.splits turn.splits sum.splits RecvResult.splits)

lemma send_with_same: "send_with K n data sid pp opts (a, s) = (u, a', s') \<Longrightarrow> a' = a \<and> u \<noteq> Panicked"
  using assoc_send.run_accepted [of K data sid pp opts n "(a, s)" u "(a', s')"] by (simp add: send_with_def)

lemma abort_same: "abort_association K n (a, s) = (z, a', s') \<Longrightarrow> a' = a \<and> z \<noteq> Panicked"
  using send_with_same [of K n "[]" 0 0 "default_SendOptions\<lparr>abort := True\<rparr>" a s]
  by (auto simp: abort_association_def split: prod.splits turn.splits sum.splits)

lemma run_sound:
  assumes "\<And>as. assoc_sound (fst as) \<Longrightarrow> assoc_sound (fst (snd (t as))) \<and> fst (t as) \<noteq> Panicked"
    and "assoc_sound a"
  shows "assoc_sound (fst (snd (run_turns t n (a, s)))) \<and> fst (run_turns t n (a, s)) \<noteq> Panicked"
  using run_turns_invariant [of "\<lambda>as. assoc_sound (fst as)" t "(a, s)" n]
    run_turns_no_panic [of "\<lambda>as. assoc_sound (fst as)" t "(a, s)" n] assms by auto

lemma recv_msg_sound:
  assumes "recvmsg_ok K" and "assoc_sound a" and "recv_msg K n (a, s) = (t, a', s')"
  shows "assoc_sound a' \<and> t \<noteq> Panicked"
  using run_sound [of "recv_msg_turn K" a n s] recv_msg_turn_sound [OF assms(1)] assms(2,3) by (auto simp: recv_msg_def)

lemma recv_sound:
  assumes "recvmsg_ok K" and "assoc_sound a" and "recv K n (a, s) = (t, a', s')"
  shows "assoc_sound a' \<and> t \<noteq> Panicked"
  using run_sound [of "recv_turn K" a n s] recv_turn_sound [OF assms(1)] assms(2,3) by (auto simp: recv_def)

lemma assoc_lives_sound:
  assumes "assoc_lives K a" and "recvmsg_ok K"
  shows "assoc_sound a"
  using assms(1)
proof induction
  case connected
  then show ?case using connect_bound_makes assoc_sound_new by blast
next
  case accepted
  then show ?case using accept_makes assoc_sound_new by blast
next
  case peeled_off
  then show ?case using peeloff_makes assoc_sound_new by blast
next
  case received_msg
  then show ?case using recv_msg_sound assms(2) by blast
next
  case received
  then show ?case using recv_sound assms(2) by blast
next
  case sent
  then show ?case using send_with_same by blast
next
  case aborted
  then show ?case using abort_same by blast
qed

section \<open>The methods of a server\<close>

definition server_sound :: "SctpServer \<Rightarrow> bool" where
  "server_sound v \<longleftrightarrow> \<not> neg (sv_inner v) \<and> reassembly_inv (sv_recv_state v)"

lemma server_recv_turn_sound:
  assumes "recvmsg_ok K" and "server_sound (fst vs)"
  shows "server_sound (fst (snd (server_recv_turn K vs))) \<and> fst (server_recv_turn K vs) \<noteq> Panicked"
proof -
  obtain t v' s' where t: "server_recv_turn K vs = (t, v', s')" by (metis surj_pair)
  have "server_inv K vs" using assms by (cases vs) (simp add: server_inv_def server_sound_def)
  with server_recv.turn_feeds [OF _ t] have "t \<noteq> Panicked" "reassembly_inv (sv_recv_state v')" by (auto simp: server_inv_def)
  moreover have "sv_inner v' = sv_inner (fst vs)"
    using t by (cases vs)
      (auto simp: server_recv_turn_def Let_def split: prod.splits readiness.splits option.splits Step.splits if_splits)
  ultimately show ?thesis using t assms(2) by (simp add: server_sound_def)
qed

lemma server_run_sound:
  assumes "recvmsg_ok K" and "server_sound v"
  shows "server_sound (fst (snd (run_turns (server_recv_turn K) n (v, s))))
    \<and> fst (run_turns (server_recv_turn K) n (v, s)) \<noteq> Panicked"
  using run_turns_invariant [of "\<lambda>vs. server_sound (fst vs)" "server_recv_turn K" "(v, s)" n]
    run_turns_no_panic [of "\<lambda>vs. server_sound (fst vs)" "server_recv_turn K" "(v, s)" n]
    server_recv_turn_sound [OF assms(1)] assms(2) by auto

lemma server_send_same: "server_send_with K n aid data sid pp opts (v, s) = (u, v', s') \<Longrightarrow> v' = v \<and> u \<noteq> Panicked"
  using server_send.run_accepted [of K aid data sid pp opts n "(v, s)" u "(v', s')"] by (simp add: server_send_with_def)

lemma server_lives_sound:
  assumes "server_lives K v" and "recvmsg_ok K"
  shows "server_sound v"
  using assms(1)
proof induction
  case bound
  then show ?case using server_bind_makes reassembly_inv_default by (fastforce simp: server_sound_def)
next
  case (received v n s t v' s')
  then show ?case using server_run_sound [OF assms(2), of v n s] by simp
next
  case sent
  then show ?case using server_send_same by blast
qed

section \<open>Properties\<close>

text \<open>
  C16: every association and every server that the crate can make is sound. Whatever sequence of
  operations an association has gone through since it was connected, accepted or peeled off, in whatever
  states of the world, its descriptor is not negative, its read buffer is empty or has the size of the read
  window, and so no further receive, send or abort on it panics, however often it is polled; the same holds
  of a server since it was bound.
\<close>

theorem objects_are_sound:
  assumes "recvmsg_ok K" and "assoc_lives K a" and "server_lives K v"
  shows "\<not> neg (as_raw_fd a) \<and> scratch (recv_state a) \<in> {[]} \<union> {b. length b = 65536}
    \<and> fst (recv_msg K n (a, s)) \<noteq> Panicked \<and> fst (recv K n (a, s)) \<noteq> Panicked
    \<and> fst (send_with K n data sid pp opts (a, s)) \<noteq> Panicked \<and> fst (abort_association K n (a, s)) \<noteq> Panicked
    \<and> \<not> neg (sv_inner v) \<and> scratch (sv_recv_state v) \<in> {[]} \<union> {b. length b = 65536}
    \<and> fst (run_turns (server_recv_turn K) n (v, s)) \<noteq> Panicked
    \<and> fst (server_send_with K n aid data sid pp opts (v, s)) \<noteq> Panicked"
proof -
  have a: "assoc_sound a" and v: "server_sound v"
    using assoc_lives_sound server_lives_sound assms by blast+
  have "fst (recv_msg K n (a, s)) \<noteq> Panicked" "fst (recv K n (a, s)) \<noteq> Panicked"
    "fst (send_with K n data sid pp opts (a, s)) \<noteq> Panicked" "fst (abort_association K n (a, s)) \<noteq> Panicked"
    "fst (server_send_with K n aid data sid pp opts (v, s)) \<noteq> Panicked"
    using recv_msg_sound [OF assms(1) a] recv_sound [OF assms(1) a] send_with_same abort_same server_send_same
    by (metis surj_pair fst_conv)+
  with a v server_run_sound [OF assms(1) v] show ?thesis
    by (auto simp: as_raw_fd_def assoc_sound_def server_sound_def reassembly_inv_def RECV_WINDOW_def)
qed

theorem objects_are_sound_witness:
  "assoc_lives sample_kernel (new_association 5) \<and> server_lives sample_kernel \<lparr>sv_inner = 3, sv_recv_state = default_Reassembly\<rparr>
    \<and> fst (recv_msg sample_kernel 4 (new_association 5, sample_sys [([1], MSG_EOR, sample_sinfo)] 0)) \<noteq> Panicked"
proof -
  let ?v = "\<lparr>sv_inner = 3, sv_recv_state = default_Reassembly\<rparr>"
  obtain s' where "server_bind_impl sample_kernel [V4 1 80] cfg_new (sample_sys [] 0) = (Inr ?v, s')"
    by (cases "to_raw sample_kernel (V4 1 80)") (simp add: bind_eval server_bind_impl_def server_setup_def)
  then have v: "server_lives sample_kernel ?v" by (rule server_lives.bound)
  obtain s' where "peeloff sample_kernel ?v 9 (sample_sys [] 0) = (Inr (new_association 5), s')"
    by (simp add: peeloff_def from_raw_fd_def bind_eval)
  with v have a: "assoc_lives sample_kernel (new_association 5)" by (rule assoc_lives.peeled_off)
  from a v objects_are_sound [OF sample_recvmsg_ok a v] show ?thesis by blast
qed

end
