(* ===== verification/Net_Text.thy ===== *)
theory Net_Text
  imports Addr
begin

text \<open>
  The text of a socket address: the part of \<open>std::net\<close> that the Python bindings use, \<open>FromStr\<close> and
  \<open>Display\<close> of \<open>SocketAddr\<close>. A parser takes the rest of the input and returns its result with what
  is left of it, or \<open>None\<close> with nothing consumed (\<open>read_atomically\<close>).
\<close>

section \<open>Numbers in a base\<close>

text \<open>\<open>char::to_digit\<close>, and the digits of a number in a base of at most 16, without leading zeros.\<close>

definition to_digit :: "nat \<Rightarrow> char \<Rightarrow> nat option" where
  "to_digit radix c = (let n = of_char c :: nat;
       d = (if 48 \<le> n \<and> n \<le> 57 then n - 48
            else if 97 \<le> n \<and> n \<le> 122 then n - 87
            else if 65 \<le> n \<and> n \<le> 90 then n - 55 else radix) in
     if d < radix then Some d else None)"

function num_text :: "nat \<Rightarrow> nat \<Rightarrow> string" where
  "num_text b n = (if n < b \<or> b < 2 then [digit n] else num_text b (n div b) @ [digit (n mod b)])"
  by auto

termination
  by (relation "measure snd") auto

declare num_text.simps [simp del]

lemma num_text_dec: "num_text 10 n = dec_nat n"
proof (induction n rule: dec_nat.induct)
  case (1 n)
  then show ?case by (subst num_text.simps, subst dec_nat.simps) simp
qed

lemma to_digit_digit: "d < b \<Longrightarrow> b \<le> 16 \<Longrightarrow> to_digit b (digit d) = Some d"
proof -
  assume "d < b" "b \<le> 16"
  then have "d < 16" "d < b" by simp_all
  then show ?thesis
    by - (drule less_16_cases, auto simp: to_digit_def digit_def dest!: less_10_cases)
qed

lemma num_text_digits: "2 \<le> b \<Longrightarrow> b \<le> 16 \<Longrightarrow> \<forall>c \<in> set (num_text b n). to_digit b c \<noteq> None"
proof (induction b n rule: num_text.induct)
  case (1 b n)
  then show ?case by (subst num_text.simps) (auto simp: to_digit_digit)
qed

lemma num_text_nonempty [simp]: "num_text b n \<noteq> []"
  by (subst num_text.simps) simp

lemma num_text_length: "2 \<le> b \<Longrightarrow> n < b ^ k \<Longrightarrow> 0 < k \<Longrightarrow> length (num_text b n) \<le> k"
proof (induction k arbitrary: n)
  case 0
  then show ?case by simp
next
  case (Suc k)
  show ?case
  proof (cases "n < b")
    case True
    then show ?thesis by (subst num_text.simps) simp
  next
    case False
    with Suc.prems have "0 < k" by (cases k) auto
    moreover have "n div b < b ^ k" using Suc.prems by (simp add: less_mult_imp_div_less mult.commute)
    ultimately have "length (num_text b (n div b)) \<le> k" using Suc by blast
    with False Suc.prems show ?thesis by (subst num_text.simps) simp
  qed
qed

lemma num_text_hd: "2 \<le> b \<Longrightarrow> b \<le> 16 \<Longrightarrow> hd (num_text b n) = CHR ''0'' \<Longrightarrow> n = 0"
proof (induction b n rule: num_text.induct)
  case (1 b n)
  show ?case
  proof (cases "n < b")
    case True
    with "1.prems" have "digit n = digit 0" by (simp add: num_text.simps [of b n] digit_def)
    with True "1.prems" to_digit_digit [of n b] to_digit_digit [of 0 b] show ?thesis by simp
  next
    case False
    with "1.prems" have "hd (num_text b (n div b)) = CHR ''0''" by (simp add: num_text.simps [of b n])
    with "1.IH" "1.prems" False have "n div b = 0" by simp
    with False "1.prems" show ?thesis by (simp add: div_eq_0_iff)
  qed
qed

text \<open>The number that digits stand for, read from the left.\<close>

definition num_value :: "nat \<Rightarrow> nat \<Rightarrow> string \<Rightarrow> nat" where
  "num_value b = foldl (\<lambda>a c. a * b + the (to_digit b c))"

lemma num_value_Cons: "num_value b a (c # s) = num_value b (a * b + the (to_digit b c)) s"
  by (simp add: num_value_def)

lemma num_value_text: "2 \<le> b \<Longrightarrow> b \<le> 16 \<Longrightarrow> num_value b 0 (num_text b n) = n"
proof (induction b n rule: num_text.induct)
  case (1 b n)
  then show ?case
    by (subst num_text.simps) (auto simp: num_value_def to_digit_digit)
qed

lemma num_value_mono: "0 < b \<Longrightarrow> a \<le> num_value b a s"
proof (induction s arbitrary: a)
  case Nil
  then show ?case by (simp add: num_value_def)
next
  case (Cons c s)
  have "a \<le> a * b + the (to_digit b c)" using Cons.prems by (simp add: trans_le_add1)
  with Cons.IH [OF Cons.prems] show ?case by (simp add: num_value_Cons order_trans)
qed

section \<open>The parsers\<close>

type_synonym 'a parser = "string \<Rightarrow> ('a \<times> string) option"

fun read_given_char :: "char \<Rightarrow> string \<Rightarrow> string option" where
  "read_given_char c [] = None"
| "read_given_char c (x # s) = (if x = c then Some s else None)"

definition read_separator :: "char \<Rightarrow> nat \<Rightarrow> 'a parser \<Rightarrow> 'a parser" where
  "read_separator sep i p s = (if i > 0 then
     (case read_given_char sep s of None \<Rightarrow> None | Some s' \<Rightarrow> p s') else p s)"

text \<open>
  \<open>read_number\<close>: with a limit on the digits it counts them, without one it checks the arithmetic;
  \<open>lim\<close> is the size of the type that is read.
\<close>

fun number_loop :: "nat \<Rightarrow> nat option \<Rightarrow> nat \<Rightarrow> nat \<Rightarrow> nat \<Rightarrow> string \<Rightarrow> (nat \<times> nat \<times> string) option" where
  "number_loop radix m lim acc cnt [] = Some (acc, cnt, [])"
| "number_loop radix m lim acc cnt (c # s) = (case to_digit radix c of
     None \<Rightarrow> Some (acc, cnt, c # s)
   | Some d \<Rightarrow>
       (case m of
          Some k \<Rightarrow> if cnt + 1 > k then None else number_loop radix m lim (acc * radix + d) (cnt + 1) s
        | None \<Rightarrow> if acc * radix \<ge> lim \<or> acc * radix + d \<ge> lim then None
            else number_loop radix m lim (acc * radix + d) (cnt + 1) s))"

definition read_number :: "nat \<Rightarrow> nat option \<Rightarrow> bool \<Rightarrow> nat \<Rightarrow> nat parser" where
  "read_number radix m allow_zero_prefix lim s =
     (case number_loop radix m lim 0 0 s of
        None \<Rightarrow> None
      | Some (v, cnt, rest) \<Rightarrow>
          if cnt = 0 then None
          else if \<not> allow_zero_prefix \<and> hd s = CHR ''0'' \<and> cnt > 1 then None
          else if v < lim then Some (v, rest) else None)"

fun read_octets :: "nat \<Rightarrow> nat \<Rightarrow> u8 list parser" where
  "read_octets i 0 s = Some ([], s)"
| "read_octets i (Suc n) s = (case read_separator CHR ''.'' i (read_number 10 (Some 3) False 256) s of
     None \<Rightarrow> None
   | Some (v, s') \<Rightarrow> (case read_octets (Suc i) n s' of
        None \<Rightarrow> None
      | Some (vs, s'') \<Rightarrow> Some (word_of_nat v # vs, s'')))"

definition read_ipv4_addr :: "u8 list parser" where
  "read_ipv4_addr s = read_octets 0 4 s"

text \<open>\<open>read_groups\<close> from the group \<open>i\<close> on, \<open>n\<close> groups left: the groups read, whether they end with an IPv4 address.\<close>

fun read_groups :: "nat \<Rightarrow> nat \<Rightarrow> string \<Rightarrow> (u16 list \<times> bool) \<times> string" where
  "read_groups i 0 s = (([], False), s)"
| "read_groups i (Suc n) s =
     (case (if n > 0 then read_separator CHR '':'' i read_ipv4_addr s else None) of
        Some (os, s') \<Rightarrow> (([be_word (take 2 os), be_word (drop 2 os)], True), s')
      | None \<Rightarrow>
          (case read_separator CHR '':'' i (read_number 16 (Some 4) True 65536) s of
             Some (g, s') \<Rightarrow> (case read_groups (Suc i) n s' of ((gs, v4), s'') \<Rightarrow> ((word_of_nat g # gs, v4), s''))
           | None \<Rightarrow> (([], False), s)))"

definition of_segments :: "u16 list \<Rightarrow> 128 word" where
  "of_segments gs = be_word (concat (map (be_bytes 2) gs))"

definition read_ipv6_addr :: "(128 word) parser" where
  "read_ipv6_addr s = (case read_groups 0 8 s of ((head, head_ipv4), s1) \<Rightarrow>
     if length head = 8 then Some (of_segments head, s1)
     else if head_ipv4 then None
     else (case read_given_char CHR '':'' s1 of
        None \<Rightarrow> None
      | Some s2 \<Rightarrow> (case read_given_char CHR '':'' s2 of
           None \<Rightarrow> None
         | Some s3 \<Rightarrow> (case read_groups 0 (8 - (length head + 1)) s3 of ((tail, _), s4) \<Rightarrow>
              Some (of_segments (head @ replicate (8 - length head - length tail) 0 @ tail), s4)))))"

definition read_port :: "u16 parser" where
  "read_port s = (case read_given_char CHR '':'' s of
     None \<Rightarrow> None
   | Some s' \<Rightarrow> map_option (\<lambda>(v, r). (word_of_nat v, r)) (read_number 10 None True (2 ^ 16) s'))"

definition read_scope_id :: "u32 parser" where
  "read_scope_id s = (case read_given_char CHR ''%'' s of
     None \<Rightarrow> None
   | Some s' \<Rightarrow> map_option (\<lambda>(v, r). (word_of_nat v, r)) (read_number 10 None True (2 ^ 32) s'))"

definition read_socket_addr_v4 :: "SocketAddr parser" where
  "read_socket_addr_v4 s = (case read_ipv4_addr s of
     None \<Rightarrow> None
   | Some (os, s1) \<Rightarrow> map_option (\<lambda>(p, r). (V4 (be_word os) p, r)) (read_port s1))"

definition read_socket_addr_v6 :: "SocketAddr parser" where
  "read_socket_addr_v6 s = (case read_given_char CHR ''['' s of
     None \<Rightarrow> None
   | Some s1 \<Rightarrow> (case read_ipv6_addr s1 of
        None \<Rightarrow> None
      | Some (ip, s2) \<Rightarrow>
          (case (case read_scope_id s2 of None \<Rightarrow> (0, s2) | Some (sc, r) \<Rightarrow> (sc, r)) of (sc, s3) \<Rightarrow>
             (case read_given_char CHR '']'' s3 of
                None \<Rightarrow> None
              | Some s4 \<Rightarrow> map_option (\<lambda>(p, r). (V6 ip p 0 sc, r)) (read_port s4)))))"

definition read_socket_addr :: "SocketAddr parser" where
  "read_socket_addr s = (case read_socket_addr_v4 s of Some x \<Rightarrow> Some x | None \<Rightarrow> read_socket_addr_v6 s)"

text \<open>\<open>str::parse::<SocketAddr>()\<close>: nothing may be left.\<close>

definition socket_addr_from_str :: "string \<Rightarrow> SocketAddr option" where
  "socket_addr_from_str s = (case read_socket_addr s of Some (a, []) \<Rightarrow> Some a | _ \<Rightarrow> None)"

section \<open>The printers\<close>

text \<open>Texts with a separator before each but the first; \<open>i\<close> is the index of the first of them.\<close>

fun sep_text :: "char \<Rightarrow> nat \<Rightarrow> string list \<Rightarrow> string" where
  "sep_text c i [] = []"
| "sep_text c i (x # xs) = (if i > 0 then c # x else x) @ sep_text c (Suc i) xs"

definition ipv4_text :: "u8 list \<Rightarrow> string" where
  "ipv4_text os = sep_text CHR ''.'' 0 (map fmt_u os)"

fun segments_of :: "bytes \<Rightarrow> u16 list" where
  "segments_of (a # b # bs) = be_word [a, b] # segments_of bs"
| "segments_of _ = []"

definition segments :: "128 word \<Rightarrow> u16 list" where
  "segments ip = segments_of (be_bytes 16 ip)"

definition to_ipv4_mapped :: "128 word \<Rightarrow> u8 list option" where
  "to_ipv4_mapped ip = (if take 12 (be_bytes 16 ip) = replicate 10 0 @ [255, 255]
     then Some (drop 12 (be_bytes 16 ip)) else None)"

text \<open>The longest run of zero segments, the first of several: (start, length).\<close>

fun zero_span :: "nat \<Rightarrow> nat \<times> nat \<Rightarrow> nat \<times> nat \<Rightarrow> u16 list \<Rightarrow> nat \<times> nat" where
  "zero_span i longest current [] = longest"
| "zero_span i longest current (g # gs) =
     (if g = 0 then
        let current = (if snd current = 0 then (i, 1) else (fst current, snd current + 1)) in
        zero_span (Suc i) (if snd current > snd longest then current else longest) current gs
      else zero_span (Suc i) longest (0, 0) gs)"

definition fmt_subslice :: "u16 list \<Rightarrow> string" where
  "fmt_subslice gs = sep_text CHR '':'' 0 (map (\<lambda>g. num_text 16 (unat g)) gs)"

definition ipv6_text :: "128 word \<Rightarrow> string" where
  "ipv6_text ip = (case to_ipv4_mapped ip of
     Some os \<Rightarrow> ''::ffff:'' @ ipv4_text os
   | None \<Rightarrow>
       let gs = segments ip in
       case zero_span 0 (0, 0) (0, 0) gs of (st, len) \<Rightarrow>
         if len > 1 then fmt_subslice (take st gs) @ ''::'' @ fmt_subslice (drop (st + len) gs)
         else fmt_subslice gs)"

fun socket_addr_text :: "SocketAddr \<Rightarrow> string" where
  "socket_addr_text (V4 ip p) = ipv4_text (be_bytes 4 ip) @ '':'' @ fmt_u p"
| "socket_addr_text (V6 ip p fl sc) =
     (if sc = 0 then ''['' @ ipv6_text ip @ '']:'' @ fmt_u p
      else ''['' @ ipv6_text ip @ ''%'' @ fmt_u sc @ '']:'' @ fmt_u p)"

section \<open>A number read back\<close>

text \<open>The input goes on with no digit of the base.\<close>

definition stops :: "nat \<Rightarrow> string \<Rightarrow> bool" where
  "stops b s \<longleftrightarrow> (case s of [] \<Rightarrow> True | c # _ \<Rightarrow> to_digit b c = None)"

lemma stops_simps [simp]: "stops b []" "stops b (c # s) \<longleftrightarrow> to_digit b c = None"
  by (simp_all add: stops_def)

lemma number_loop_stop: "stops b rest \<Longrightarrow> number_loop b m lim acc cnt rest = Some (acc, cnt, rest)"
  by (cases rest) auto

lemma number_loop_counted:
  "\<forall>c \<in> set s. to_digit b c \<noteq> None \<Longrightarrow> stops b rest \<Longrightarrow> cnt + length s \<le> k \<Longrightarrow>
   number_loop b (Some k) lim acc cnt (s @ rest) = Some (num_value b acc s, cnt + length s, rest)"
  by (induction s arbitrary: acc cnt) (auto simp: number_loop_stop num_value_def)

lemma number_loop_checked:
  "\<forall>c \<in> set s. to_digit b c \<noteq> None \<Longrightarrow> stops b rest \<Longrightarrow> 0 < b \<Longrightarrow> num_value b acc s < lim \<Longrightarrow>
   number_loop b None lim acc cnt (s @ rest) = Some (num_value b acc s, cnt + length s, rest)"
proof (induction s arbitrary: acc cnt)
  case Nil
  then show ?case by (simp add: number_loop_stop num_value_def)
next
  case (Cons c s)
  then obtain d where d: "to_digit b c = Some d" by auto
  have "acc * b + d \<le> num_value b acc (c # s)"
    using num_value_mono [of b "acc * b + d" s] Cons.prems(3) d by (simp add: num_value_Cons)
  with Cons.prems d have "acc * b + d < lim" by simp
  with Cons d show ?case by (simp add: num_value_Cons)
qed

lemma read_number_counted:
  assumes "2 \<le> b" "b \<le> 16" "n < b ^ k" "0 < k" "n < lim" "stops b rest"
  shows "read_number b (Some k) z lim (num_text b n @ rest) = Some (n, rest)"
proof -
  have len: "length (num_text b n) \<le> k" using assms by (intro num_text_length) simp_all
  have "hd (num_text b n @ rest) = CHR ''0'' \<Longrightarrow> length (num_text b n) = 1"
    using num_text_hd [of b n] assms by (simp add: num_text.simps [of b 0])
  with number_loop_counted [OF num_text_digits [OF assms(1,2), of n] assms(6), of 0 k lim 0] len assms
  show ?thesis by (auto simp: read_number_def num_value_text)
qed

lemma read_number_checked:
  assumes "2 \<le> b" "b \<le> 16" "n < lim" "stops b rest"
  shows "read_number b None True lim (num_text b n @ rest) = Some (n, rest)"
  using number_loop_checked [OF num_text_digits [OF assms(1,2), of n] assms(4), of 0 lim 0] assms
  by (auto simp: read_number_def num_value_text)

lemma read_number_none: "stops b s \<Longrightarrow> read_number b m z lim s = None"
  by (simp add: read_number_def number_loop_stop)

lemma number_loop_rest:
  "number_loop b m lim acc cnt s = Some (v, n, r) \<Longrightarrow> r = dropWhile (\<lambda>c. to_digit b c \<noteq> None) s"
  by (induction b m lim acc cnt s rule: number_loop.induct) (auto split: option.splits if_splits)

lemma read_number_rest:
  "read_number b m z lim s = Some (v, r) \<Longrightarrow> r = dropWhile (\<lambda>c. to_digit b c \<noteq> None) s"
  by (auto simp: read_number_def dest: number_loop_rest split: option.splits prod.splits if_splits)

lemma to_digit_sep [simp]:
  "to_digit b CHR '':'' = None" "to_digit b CHR ''.'' = None" "to_digit b CHR '']'' = None" "to_digit b CHR ''%'' = None"
  by (simp_all add: to_digit_def)

section \<open>An IPv4 address read back\<close>

lemma read_octets_text:
  "stops 10 rest \<Longrightarrow> read_octets i (length os) (sep_text CHR ''.'' i (map fmt_u os) @ rest) = Some (os, rest)"
proof (induction os arbitrary: i)
  case Nil
  then show ?case by simp
next
  case (Cons a os)
  let ?rest = "sep_text CHR ''.'' (Suc i) (map fmt_u os) @ rest"
  have "stops 10 ?rest" using Cons.prems by (cases os) simp_all
  moreover have "unat a < 256" using unsigned_less [of a, where 'a = nat] by simp
  ultimately have "read_number 10 (Some 3) False 256 (fmt_u a @ ?rest) = Some (unat a, ?rest)"
    unfolding fmt_u_def num_text_dec [symmetric] by (intro read_number_counted) simp_all
  with Cons show ?case by (cases "i = 0") (simp_all add: read_separator_def)
qed

lemma read_ipv4_text:
  "length os = 4 \<Longrightarrow> stops 10 rest \<Longrightarrow> read_ipv4_addr (ipv4_text os @ rest) = Some (os, rest)"
  using read_octets_text [of rest 0 os] by (simp add: read_ipv4_addr_def ipv4_text_def)

text \<open>A group of an IPv6 address is no IPv4 address.\<close>

definition no_dot :: "string \<Rightarrow> bool" where
  "no_dot s \<longleftrightarrow> (case s of [] \<Rightarrow> True | c # _ \<Rightarrow> c \<noteq> CHR ''.'')"

lemma no_dot_simps [simp]: "no_dot []" "no_dot (c # s) \<longleftrightarrow> c \<noteq> CHR ''.''"
  by (simp_all add: no_dot_def)

lemma no_dot_dropWhile:
  "CHR ''.'' \<notin> set s \<Longrightarrow> no_dot rest \<Longrightarrow> stops b rest \<Longrightarrow>
   no_dot (dropWhile (\<lambda>c. to_digit b c \<noteq> None) (s @ rest))"
proof (induction s)
  case Nil
  then show ?case by (cases rest) auto
qed auto

lemma no_ipv4_without_dot:
  assumes "no_dot (dropWhile (\<lambda>c. to_digit 10 c \<noteq> None) s)"
  shows "read_ipv4_addr s = None"
proof -
  have "read_octets 1 3 r = None" if "read_number 10 (Some 3) False 256 s = Some (v, r)" for v r
  proof -
    have "no_dot r" using read_number_rest [OF that] assms by simp
    then show ?thesis by (cases r) (simp_all add: numeral_3_eq_3 read_separator_def)
  qed
  then show ?thesis
    by (auto simp: read_ipv4_addr_def numeral_eq_Suc read_separator_def split: option.splits)
qed

section \<open>An IPv6 address read back\<close>

abbreviation hex_text :: "u16 \<Rightarrow> string" where
  "hex_text g \<equiv> num_text 16 (unat g)"

lemma hex_text_no_dot: "CHR ''.'' \<notin> set (hex_text g)"
  using num_text_digits [of 16 "unat g"] by (metis to_digit_sep(2) numeral_le_iff semiring_norm(68,69,71,72) le_numeral_extra(4))

text \<open>What may follow the groups of a run: no digit, no dot, and no colon with a digit after it.\<close>

definition run_ends :: "string \<Rightarrow> bool" where
  "run_ends s \<longleftrightarrow> stops 16 s \<and> no_dot s \<and> (case s of c # r \<Rightarrow> c = CHR '':'' \<longrightarrow> stops 16 r | [] \<Rightarrow> True)"

lemma to_digit_10_16: "to_digit 16 c = None \<Longrightarrow> to_digit 10 c = None"
  by (auto simp: to_digit_def Let_def split: if_splits)

lemma stops_16_10: "stops 16 s \<Longrightarrow> stops 10 s"
  by (cases s) (auto intro: to_digit_10_16)

lemma read_octets_stops: "stops 10 s \<Longrightarrow> read_ipv4_addr s = None"
  by (simp add: read_ipv4_addr_def numeral_eq_Suc read_separator_def read_number_none)

lemma read_groups_end:
  assumes "run_ends s"
  shows "read_groups i n s = (([], False), s)"
proof (cases n)
  case (Suc m)
  have s: "stops 16 s" using assms by (simp add: run_ends_def)
  have r: "stops 16 r" if "read_given_char CHR '':'' s = Some r" for r
    using that assms by (cases s) (auto simp: run_ends_def split: if_splits)
  have "read_separator CHR '':'' i read_ipv4_addr s = None"
    using s r by (auto simp: read_separator_def read_octets_stops stops_16_10 split: option.splits)
  moreover have "read_separator CHR '':'' i (read_number 16 (Some 4) True 65536) s = None"
    using s r by (auto simp: read_separator_def read_number_none split: option.splits)
  ultimately show ?thesis by (simp add: Suc)
qed simp

lemma read_groups_text:
  "run_ends rest \<Longrightarrow> length gs \<le> n \<Longrightarrow>
   read_groups i n (sep_text CHR '':'' i (map hex_text gs) @ rest) = ((gs, False), rest)"
proof (induction gs arbitrary: i n)
  case Nil
  then show ?case by (simp add: read_groups_end)
next
  case (Cons g gs)
  obtain m where n: "n = Suc m" using Cons.prems by (cases n) auto
  let ?rest = "sep_text CHR '':'' (Suc i) (map hex_text gs) @ rest"
  have follow: "stops 16 ?rest" "no_dot ?rest"
    using Cons.prems by (cases gs; auto simp: run_ends_def)+
  have "read_ipv4_addr (hex_text g @ ?rest) = None"
    by (intro no_ipv4_without_dot no_dot_dropWhile hex_text_no_dot follow stops_16_10)
  moreover have "read_number 16 (Some 4) True 65536 (hex_text g @ ?rest) = Some (unat g, ?rest)"
    using follow unsigned_less [of g, where 'a = nat] by (intro read_number_counted) simp_all
  moreover have "read_groups (Suc i) m ?rest = ((gs, False), rest)"
    using Cons n by simp
  ultimately show ?case
    by (cases "i = 0"; cases m) (simp_all add: n read_separator_def)
qed

lemma segments_of_bytes: "even (length bs) \<Longrightarrow> concat (map (be_bytes 2) (segments_of bs)) = bs"
proof (induction bs rule: segments_of.induct)
  case (1 a b bs)
  have "be_bytes 2 (be_word [a, b] :: u16) = [a, b]" by (rule u16_ne.enc_dec) simp
  with 1 show ?case by simp
qed auto

lemma length_segments_of: "length (segments_of bs) = length bs div 2"
  by (induction bs rule: segments_of.induct) auto

lemma length_segments [simp]: "length (segments ip) = 8"
  by (simp add: segments_def length_segments_of)

lemma of_segments_segments: "of_segments (segments ip) = ip"
  unfolding of_segments_def segments_def
  by (subst segments_of_bytes) (simp_all del: ne_bytes.simps ne_word.simps add: u128_ne.dec_enc)

text \<open>The span that is printed as \<open>::\<close> holds zeros only.\<close>

definition span_of_zeros :: "u16 list \<Rightarrow> nat \<times> nat \<Rightarrow> bool" where
  "span_of_zeros gs sp \<longleftrightarrow> fst sp + snd sp \<le> length gs \<and> take (snd sp) (drop (fst sp) gs) = replicate (snd sp) 0"

lemma zero_span_zeros:
  "span_of_zeros pre longest \<Longrightarrow> span_of_zeros pre current \<Longrightarrow> (snd current > 0 \<longrightarrow> fst current + snd current = length pre) \<Longrightarrow>
   span_of_zeros (pre @ gs) (zero_span (length pre) longest current gs)"
proof (induction gs arbitrary: pre longest current)
  case Nil
  then show ?case by simp
next
  case (Cons g gs)
  have ext: "span_of_zeros (pre @ [g]) sp" if "span_of_zeros pre sp" for sp
    using that by (auto simp: span_of_zeros_def)
  define cur where "cur = (if snd current = 0 then (length pre, 1) else (fst current, snd current + 1))"
  have cur: "span_of_zeros (pre @ [g]) cur" "fst cur + snd cur = length (pre @ [g])" if "g = 0"
    using Cons.prems that by (auto simp: span_of_zeros_def cur_def replicate_append_same)
  have zero: "span_of_zeros (pre @ [g]) (0, 0)" by (simp add: span_of_zeros_def)
  show ?case
  proof (cases "g = 0")
    case True
    with Cons.IH [of "pre @ [g]" "if snd cur > snd longest then cur else longest" cur] ext Cons.prems cur
    show ?thesis by (auto simp: Let_def cur_def [symmetric])
  next
    case False
    with Cons.IH [of "pre @ [g]" longest "(0, 0)"] ext Cons.prems zero show ?thesis by simp
  qed
qed

lemma zero_span_split:
  assumes "zero_span 0 (0, 0) (0, 0) gs = (st, len)"
  shows "gs = take st gs @ replicate len 0 @ drop (st + len) gs \<and> st + len \<le> length gs"
proof -
  have "span_of_zeros gs (st, len)"
    using zero_span_zeros [of "[]" "(0, 0)" "(0, 0)" gs] assms by (simp add: span_of_zeros_def)
  then show ?thesis
    by (metis span_of_zeros_def fst_conv snd_conv append_take_drop_id drop_drop add.commute)
qed

lemma be_bytes_be_word4: "length os = 4 \<Longrightarrow> be_bytes 4 (be_word os :: u32) = os"
  by (rule u32_ne.enc_dec)

lemma le_bytes_2: "le_bytes 2 w = [ucast w, ucast (drop_bit 8 w)]"
  using le_bytes.simps(2) [of 1 w] le_bytes.simps(2) [of 0 "drop_bit 8 w"] by (simp only: one_add_one [symmetric] Suc_eq_plus1 le_bytes.simps(1)) simp

lemma mapped_segments:
  assumes "to_ipv4_mapped ip = Some os"
  shows "length os = 4" "of_segments (replicate 5 0 @ [65535, be_word (take 2 os), be_word (drop 2 os)]) = ip"
proof -
  have os: "os = drop 12 (be_bytes 16 ip)" and hd: "take 12 (be_bytes 16 ip) = replicate 10 0 @ [255, 255]"
    using assms by (auto simp: to_ipv4_mapped_def split: if_splits)
  show len: "length os = 4" by (simp add: os)
  have "be_bytes 2 (be_word (take 2 os) :: u16) = take 2 os" "be_bytes 2 (be_word (drop 2 os) :: u16) = drop 2 os"
    by (rule u16_ne.enc_dec; simp add: len)+
  moreover have "be_bytes 2 (0 :: u16) = [0, 0]" "be_bytes 2 (65535 :: u16) = [255, 255]"
    by (simp_all add: le_bytes_2)
  moreover have "replicate 5 (0 :: u16) = [0, 0, 0, 0, 0]" "replicate 10 (0 :: u8) = [0, 0, 0, 0, 0, 0, 0, 0, 0, 0]"
    by (simp_all add: numeral_eq_Suc)
  ultimately have "concat (map (be_bytes 2) (replicate 5 (0 :: u16) @ [65535, be_word (take 2 os), be_word (drop 2 os)]))
      = (replicate 10 0 @ [255, 255]) @ os"
    by (simp del: ne_bytes.simps ne_word.simps)
  also have "\<dots> = be_bytes 16 ip"
    unfolding hd [symmetric] os by (rule append_take_drop_id)
  finally show "of_segments (replicate 5 0 @ [65535, be_word (take 2 os), be_word (drop 2 os)]) = ip"
    unfolding of_segments_def by (simp only: u128_ne.dec_enc)
qed

lemma read_ipv6_mapped:
  assumes "to_ipv4_mapped ip = Some os" and "run_ends rest"
  shows "read_ipv6_addr (''::ffff:'' @ ipv4_text os @ rest) = Some (ip, rest)"
proof -
  note m = mapped_segments [OF assms(1)]
  let ?s = "''ffff:'' @ ipv4_text os @ rest"
  have "run_ends (''::'' @ ?s)" by (simp add: run_ends_def)
  then have head: "read_groups 0 8 (''::'' @ ?s) = (([], False), ''::'' @ ?s)" by (rule read_groups_end)
  have f: "to_digit 10 CHR ''f'' = None" "hex_text 65535 = ''ffff''"
    by (simp_all add: to_digit_def num_text.simps digit_def)
  have "read_ipv4_addr ?s = None" by (rule read_octets_stops) (simp add: f)
  moreover have "read_number 16 (Some 4) True 65536 ?s = Some (65535, '':'' @ ipv4_text os @ rest)"
    using read_number_counted [of 16 65535 4 65536 "'':'' @ ipv4_text os @ rest" True] f(2) by simp
  moreover have "read_ipv4_addr (ipv4_text os @ rest) = Some (os, rest)"
    using m(1) assms(2) by (intro read_ipv4_text) (simp_all add: run_ends_def stops_16_10)
  ultimately have "read_groups 0 (Suc (Suc 5)) ?s = (([65535, be_word (take 2 os), be_word (drop 2 os)], True), rest)"
    by (simp only: read_groups.simps(2)) (simp add: read_separator_def del: ne_word.simps)
  with head m(2) show ?thesis
    by (simp add: read_ipv6_addr_def del: ne_word.simps)
qed

lemma read_ipv6_text:
  assumes "run_ends rest" and "no_dot rest" and "\<And>r. rest \<noteq> CHR '':'' # r"
  shows "read_ipv6_addr (ipv6_text ip @ rest) = Some (ip, rest)"
proof (cases "to_ipv4_mapped ip")
  case (Some os)
  with read_ipv6_mapped [OF Some assms(1)] show ?thesis by (simp add: ipv6_text_def)
next
  case None
  let ?gs = "segments ip"
  obtain st len where sp: "zero_span 0 (0, 0) (0, 0) ?gs = (st, len)" by fastforce
  note z = zero_span_split [OF sp]
  show ?thesis
  proof (cases "len > 1")
    case False
    have "read_groups 0 8 (fmt_subslice ?gs @ rest) = ((?gs, False), rest)"
      unfolding fmt_subslice_def using assms(1) by (intro read_groups_text) simp_all
    with False None sp show ?thesis
      by (simp add: ipv6_text_def read_ipv6_addr_def of_segments_segments)
  next
    case True
    let ?hd = "take st ?gs" and ?tl = "drop (st + len) ?gs"
    have "length ?hd = st" "length ?tl = 8 - (st + len)" "st + len \<le> 8" using z by auto
    moreover have "read_groups 0 8 (fmt_subslice ?hd @ ''::'' @ fmt_subslice ?tl @ rest)
        = ((?hd, False), ''::'' @ fmt_subslice ?tl @ rest)"
      unfolding fmt_subslice_def by (intro read_groups_text) (simp_all add: run_ends_def)
    moreover have "read_groups 0 (8 - (length ?hd + 1)) (fmt_subslice ?tl @ rest) = ((?tl, False), rest)"
      unfolding fmt_subslice_def using z True assms(1) by (intro read_groups_text) simp_all
    moreover have "of_segments (?hd @ replicate len 0 @ ?tl) = ip"
      using z of_segments_segments [of ip] by metis
    ultimately show ?thesis using True None sp
      by (simp add: ipv6_text_def read_ipv6_addr_def Let_def)
  qed
qed

section \<open>A socket address read back\<close>

lemma read_port_text: "read_port ('':'' @ fmt_u p) = Some (p, [])"
proof -
  have "unat p < 2 ^ 16" using unsigned_less [of p, where 'a = nat] by simp
  then have "read_number 10 None True (2 ^ 16) (fmt_u p @ []) = Some (unat p, [])"
    unfolding fmt_u_def num_text_dec [symmetric] by (intro read_number_checked) simp_all
  then show ?thesis by (simp add: read_port_def)
qed

lemma read_scope_text:
  assumes "stops 10 rest"
  shows "read_scope_id (''%'' @ fmt_u sc @ rest) = Some (sc, rest)"
proof -
  have "unat sc < 2 ^ 32" using unsigned_less [of sc, where 'a = nat] by simp
  then have "read_number 10 None True (2 ^ 32) (fmt_u sc @ rest) = Some (unat sc, rest)"
    unfolding fmt_u_def num_text_dec [symmetric] using assms by (intro read_number_checked) simp_all
  then show ?thesis by (simp add: read_scope_id_def)
qed

text \<open>The flow label is not part of the text.\<close>

fun no_flowinfo :: "SocketAddr \<Rightarrow> SocketAddr" where
  "no_flowinfo (V4 ip p) = V4 ip p"
| "no_flowinfo (V6 ip p fl sc) = V6 ip p 0 sc"

lemma read_v4_text: "read_socket_addr (socket_addr_text (V4 ip p)) = Some (V4 ip p, [])"
proof -
  have "read_ipv4_addr (ipv4_text (be_bytes 4 ip) @ '':'' @ fmt_u p) = Some (be_bytes 4 ip, '':'' @ fmt_u p)"
    by (rule read_ipv4_text) simp_all
  then show ?thesis
    using read_port_text [of p] u32_ne.dec_enc [of Big ip]
    by (simp add: read_socket_addr_def read_socket_addr_v4_def del: ne_bytes.simps ne_word.simps)
qed

lemma read_v6_text: "read_socket_addr (socket_addr_text (V6 ip p fl sc)) = Some (V6 ip p 0 sc, [])"
proof -
  have v4: "read_socket_addr_v4 (''['' @ s) = None" for s
    using read_octets_stops [of "''['' @ s"] by (simp add: read_socket_addr_v4_def to_digit_def)
  have ends: "run_ends ('']:'' @ s)" "run_ends (''%'' @ s)" for s by (simp_all add: run_ends_def)
  have plain: "read_ipv6_addr (ipv6_text ip @ '']:'' @ fmt_u p) = Some (ip, '']:'' @ fmt_u p)"
    using ends by (intro read_ipv6_text) simp_all
  have scoped: "read_ipv6_addr (ipv6_text ip @ ''%'' @ fmt_u sc @ '']:'' @ fmt_u p) = Some (ip, ''%'' @ fmt_u sc @ '']:'' @ fmt_u p)"
    using ends by (intro read_ipv6_text) simp_all
  have sc: "read_scope_id (''%'' @ fmt_u sc @ '']:'' @ fmt_u p) = Some (sc, '']:'' @ fmt_u p)"
    by (rule read_scope_text) simp
  show ?thesis
    using v4 plain scoped sc read_port_text [of p]
    by (cases "sc = 0") (simp_all add: read_socket_addr_def read_socket_addr_v6_def read_scope_id_def [of "CHR '']'' # _"])
qed

lemma socket_addr_from_text: "socket_addr_from_str (socket_addr_text a) = Some (no_flowinfo a)"
  by (cases a) (simp_all only: socket_addr_from_str_def read_v4_text read_v6_text no_flowinfo.simps option.case prod.case list.case)

text \<open>So addresses that differ in more than the flow label have different texts.\<close>

lemma socket_addr_text_inject: "socket_addr_text a = socket_addr_text b \<longleftrightarrow> no_flowinfo a = no_flowinfo b"
proof
  assume "socket_addr_text a = socket_addr_text b"
  then have "Some (no_flowinfo a) = Some (no_flowinfo b)" by (simp only: socket_addr_from_text [symmetric])
  then show "no_flowinfo a = no_flowinfo b" by simp
qed (cases a; cases b; simp)

end
