(* ===== verification/Python.thy ===== *)
theory Python
  imports Net_Text Server
begin

text \<open>
  \<open>src/python.rs\<close>: the Python bindings. Each class wraps one of the crate's types; a method converts its
  arguments, delegates, and converts the result. PyO3 is a parameter: \<open>no_loop\<close> is the error that
  \<open>future_into_py\<close> raises when there is no event loop to run the future on (the future is then dropped
  without a poll), and \<open>add\<close> is the method of a module that adds an attribute. The arguments arrive
  with the types of the signatures, which PyO3 checks.
\<close>

section \<open>Errors and addresses\<close>

datatype PyErr = SctpErrorExc string | PyValueError string | PyOther string

definition py_err :: "('w, 'x) kernel_scheme \<Rightarrow> SctpError \<Rightarrow> PyErr" where
  "py_err K e = SctpErrorExc (display_SctpError (strerror K) e)"

definition parse_addr :: "string \<Rightarrow> PyErr + SocketAddr" where
  "parse_addr s = (case socket_addr_from_str s of
     Some a \<Rightarrow> Inr a
   | None \<Rightarrow> Inl (PyValueError (''invalid socket address: '' @ s)))"

fun parse_addrs :: "string list \<Rightarrow> PyErr + SocketAddr list" where
  "parse_addrs [] = Inr []"
| "parse_addrs (s # v) = (case parse_addr s of
     Inl e \<Rightarrow> Inl e
   | Inr a \<Rightarrow> (case parse_addrs v of Inl e \<Rightarrow> Inl e | Inr as \<Rightarrow> Inr (a # as)))"

section \<open>The runtime\<close>

text \<open>
  What the process keeps of it: the variable \<open>ASYNC_SCTP_WORKER_THREADS\<close> (\<open>None\<close> when it is not set or
  not Unicode), whether the \<open>Once\<close> has run, and the numbers of threads of the builders it has
  installed.
\<close>

record runtime =
  env_threads :: "string option"
  once_done :: bool
  installed :: "usize list"

text \<open>\<open>str::parse::<usize>()\<close>: an optional plus sign, then digits, the value checked.\<close>

definition usize_from_str :: "string \<Rightarrow> usize option" where
  "usize_from_str s =
     (let digits = (case s of c # r \<Rightarrow> if c = CHR ''+'' then r else s | [] \<Rightarrow> []) in
      case read_number 10 None True (2 ^ 64) digits of
        Some (v, []) \<Rightarrow> Some (word_of_nat v)
      | _ \<Rightarrow> None)"

definition worker_threads :: "string option \<Rightarrow> usize" where
  "worker_threads env = (case env of
     None \<Rightarrow> 2
   | Some s \<Rightarrow> (case usize_from_str s of None \<Rightarrow> 2 | Some n \<Rightarrow> if n > 0 then n else 2))"

definition init_runtime :: "runtime \<Rightarrow> runtime" where
  "init_runtime p = (if once_done p then p
     else p\<lparr>once_done := True, installed := installed p @ [worker_threads (env_threads p)]\<rparr>)"

definition in_runtime :: "('w, 'x) kernel_scheme \<Rightarrow> (SctpError, 'a, 'w sys) prog \<Rightarrow>
    (PyErr, 'a, runtime \<times> 'w sys) prog" where
  "in_runtime K f = (\<lambda>(p, s). case f s of (r, s') \<Rightarrow> (map_sum (py_err K) id r, init_runtime p, s'))"

text \<open>\<open>future_into_py\<close>, and what the polls of the future it runs give.\<close>

definition future_into_py :: "('w \<Rightarrow> PyErr option) \<Rightarrow> ('w sys \<Rightarrow> (PyErr + 'a) turn \<times> 'w sys) \<Rightarrow>
    'w sys \<Rightarrow> (PyErr + 'a) turn \<times> 'w sys" where
  "future_into_py no_loop fut s = (case no_loop (kern s) of Some e \<Rightarrow> (Return (Inl e), s) | None \<Rightarrow> fut s)"

text \<open>\<open>f.await.map_err(err)?\<close> and a conversion of the result.\<close>

definition map_result :: "('w, 'x) kernel_scheme \<Rightarrow> ('a \<Rightarrow> 'b) \<Rightarrow> (SctpError + 'a) turn \<Rightarrow> (PyErr + 'b) turn" where
  "map_result K f = map_turn (map_sum (py_err K) f)"

section \<open>Metadata and configuration\<close>

record PyRecvInfo =
  py_stream :: u16
  py_ppid :: u32
  py_assoc_id :: i32

definition py_recv_info :: "RecvInfo \<Rightarrow> PyRecvInfo" where
  "py_recv_info i = \<lparr>py_stream = stream i, py_ppid = ppid i, py_assoc_id = assoc_id i\<rparr>"

definition py_ppid_name :: "PyRecvInfo \<Rightarrow> string option" where
  "py_ppid_name i = ppid_name (py_ppid i)"

definition py_repr :: "PyRecvInfo \<Rightarrow> string" where
  "py_repr i = ''RecvInfo(stream='' @ fmt_u (py_stream i) @ '', ppid='' @ ppid_display (py_ppid i)
     @ '', assoc_id='' @ fmt_i (py_assoc_id i) @ '')''"

record PyConfig =
  pc_inner :: SctpConfig

definition py_config_new :: "u16 \<Rightarrow> u16 \<Rightarrow> bool option \<Rightarrow> usize option \<Rightarrow> usize option \<Rightarrow> u32 option \<Rightarrow> PyConfig" where
  "py_config_new out max_in no_delay rcv snd_buf auto_close =
     (let c = cfg_new;
          c = (if out > 0 \<or> max_in > 0 then cfg_streams c out max_in else c);
          c = (case no_delay of Some n \<Rightarrow> cfg_nodelay c n | None \<Rightarrow> c);
          c = (case rcv of Some b \<Rightarrow> cfg_recv_buf c b | None \<Rightarrow> c);
          c = (case snd_buf of Some b \<Rightarrow> cfg_send_buf c b | None \<Rightarrow> c);
          c = (case auto_close of Some t \<Rightarrow> cfg_autoclose c t | None \<Rightarrow> c)
      in \<lparr>pc_inner = c\<rparr>)"

text \<open>\<open>config.map(|c| c.inner).unwrap_or_default()\<close>\<close>

definition config_or_default :: "PyConfig option \<Rightarrow> SctpConfig" where
  "config_or_default config = (case config of Some c \<Rightarrow> pc_inner c | None \<Rightarrow> default_SctpConfig)"

lemmas py_config_defs = cfg_new_def cfg_streams_def cfg_nodelay_def cfg_recv_buf_def cfg_send_buf_def cfg_autoclose_def
  init_or_default_def default_SctpConfig_def default_InitMsg_def

lemma py_config_fields:
  "pc_inner (py_config_new out max_in nd rcv snd_buf ac) = \<lparr>init = (if out = 0 \<and> max_in = 0 then None
      else Some \<lparr>out_streams = out, max_in_streams = max_in, max_attempts = 0, max_init_timeo = 0\<rparr>),
    nodelay = nd, recv_buf = rcv, send_buf = snd_buf, autoclose_secs = ac\<rparr>"
  by (auto simp: py_config_new_def py_config_defs word_neq_0_conv Let_def split: option.splits)

lemma ne_bytes_2_zero: "ne_bytes e 2 (0 :: u16) = [0, 0]"
  by (cases e) (simp_all add: le_bytes_0 numeral_2_eq_2)

section \<open>The association\<close>

record PyAssociation =
  pa_inner :: SctpAssociation

text \<open>The static methods take the process and the system; \<open>n\<close> is the number of polls.\<close>

definition py_connect :: "('w, 'x) kernel_scheme \<Rightarrow> ('w \<Rightarrow> PyErr option) \<Rightarrow> nat \<Rightarrow> string \<Rightarrow> PyConfig option \<Rightarrow>
    runtime \<times> 'w sys \<Rightarrow> (PyErr + PyAssociation) turn \<times> runtime \<times> 'w sys" where
  "py_connect K no_loop n addr config = (\<lambda>(p, s). let p = init_runtime p in
     case parse_addr addr of
       Inl e \<Rightarrow> (Return (Inl e), p, s)
     | Inr sa \<Rightarrow> let cfg = config_or_default config in
         (case future_into_py no_loop (\<lambda>s. case connect_with K n sa cfg s of
              (t, s') \<Rightarrow> (map_result K (\<lambda>a. \<lparr>pa_inner = a\<rparr>) t, s')) s of
            (t, s') \<Rightarrow> (t, p, s')))"

definition py_connect_multi :: "('w, 'x) kernel_scheme \<Rightarrow> ('w \<Rightarrow> PyErr option) \<Rightarrow> nat \<Rightarrow> string list \<Rightarrow> PyConfig option \<Rightarrow>
    string list option \<Rightarrow> runtime \<times> 'w sys \<Rightarrow> (PyErr + PyAssociation) turn \<times> runtime \<times> 'w sys" where
  "py_connect_multi K no_loop n addrs config locals = (\<lambda>(p, s). let p = init_runtime p in
     case parse_addrs addrs of
       Inl e \<Rightarrow> (Return (Inl e), p, s)
     | Inr sas \<Rightarrow>
         (case parse_addrs (case locals of Some ls \<Rightarrow> ls | None \<Rightarrow> []) of
            Inl e \<Rightarrow> (Return (Inl e), p, s)
          | Inr local \<Rightarrow> let cfg = config_or_default config in
              (case future_into_py no_loop (\<lambda>s. case connect_from K n local sas cfg s of
                   (t, s') \<Rightarrow> (map_result K (\<lambda>a. \<lparr>pa_inner = a\<rparr>) t, s')) s of
                 (t, s') \<Rightarrow> (t, p, s'))))"

text \<open>
  A method whose future runs \<open>op\<close> on the wrapped object, which the future shares with the caller.
\<close>

definition on_assoc :: "('w, 'x) kernel_scheme \<Rightarrow> ('w \<Rightarrow> PyErr option) \<Rightarrow> ('a \<Rightarrow> 'b) \<Rightarrow>
    (SctpAssociation \<times> 'w sys \<Rightarrow> (SctpError + 'a) turn \<times> SctpAssociation \<times> 'w sys) \<Rightarrow>
    PyAssociation \<times> 'w sys \<Rightarrow> (PyErr + 'b) turn \<times> PyAssociation \<times> 'w sys" where
  "on_assoc K no_loop f op = (\<lambda>(pa, s). case no_loop (kern s) of
     Some e \<Rightarrow> (Return (Inl e), pa, s)
   | None \<Rightarrow> (case op (pa_inner pa, s) of (t, a, s') \<Rightarrow> (map_result K f t, pa\<lparr>pa_inner := a\<rparr>, s')))"

definition py_options :: "bool \<Rightarrow> u32 \<Rightarrow> SendOptions" where
  "py_options unord ttl = default_SendOptions\<lparr>unordered := unord, ttl_ms := ttl\<rparr>"

definition py_send :: "('w, 'x) kernel_scheme \<Rightarrow> ('w \<Rightarrow> PyErr option) \<Rightarrow> nat \<Rightarrow> bytes \<Rightarrow> u16 \<Rightarrow> u32 \<Rightarrow> bool \<Rightarrow> u32 \<Rightarrow>
    PyAssociation \<times> 'w sys \<Rightarrow> (PyErr + usize) turn \<times> PyAssociation \<times> 'w sys" where
  "py_send K no_loop n data sid pp unord ttl =
     on_assoc K no_loop id (send_with K n data sid pp (py_options unord ttl))"

definition py_recv :: "('w, 'x) kernel_scheme \<Rightarrow> ('w \<Rightarrow> PyErr option) \<Rightarrow> nat \<Rightarrow>
    PyAssociation \<times> 'w sys \<Rightarrow> (PyErr + bytes \<times> PyRecvInfo) turn \<times> PyAssociation \<times> 'w sys" where
  "py_recv K no_loop n = on_assoc K no_loop (\<lambda>(data, info). (data, py_recv_info info)) (recv K n)"

definition py_peer_addrs :: "('w, 'x) kernel_scheme \<Rightarrow> PyAssociation \<Rightarrow> (PyErr, string list, 'w sys) prog" where
  "py_peer_addrs K pa s = (case peer_addrs K (pa_inner pa) s of
     (r, s') \<Rightarrow> (map_sum (py_err K) (map socket_addr_text) r, s'))"

definition py_local_addrs :: "('w, 'x) kernel_scheme \<Rightarrow> PyAssociation \<Rightarrow> (PyErr, string list, 'w sys) prog" where
  "py_local_addrs K pa s = (case local_addrs K (pa_inner pa) s of
     (r, s') \<Rightarrow> (map_sum (py_err K) (map socket_addr_text) r, s'))"

definition py_shutdown :: "('w, 'x) kernel_scheme \<Rightarrow> ('w \<Rightarrow> PyErr option) \<Rightarrow>
    PyAssociation \<times> 'w sys \<Rightarrow> (PyErr + unit) turn \<times> PyAssociation \<times> 'w sys" where
  "py_shutdown K no_loop = on_assoc K no_loop id (\<lambda>(a, s). case shutdown K a s of (r, s') \<Rightarrow> (Return r, a, s'))"

definition py_abort :: "('w, 'x) kernel_scheme \<Rightarrow> ('w \<Rightarrow> PyErr option) \<Rightarrow> nat \<Rightarrow>
    PyAssociation \<times> 'w sys \<Rightarrow> (PyErr + unit) turn \<times> PyAssociation \<times> 'w sys" where
  "py_abort K no_loop n = on_assoc K no_loop id (abort_association K n)"

section \<open>The listener\<close>

record PyListener =
  pl_inner :: SctpListener

definition py_listener_bind :: "('w, 'x) kernel_scheme \<Rightarrow> string \<Rightarrow> PyConfig option \<Rightarrow>
    (PyErr, PyListener, runtime \<times> 'w sys) prog" where
  "py_listener_bind K addr config = (case parse_addr addr of
     Inl e \<Rightarrow> err e
   | Inr sa \<Rightarrow> let cfg = config_or_default config in
       and_then (in_runtime K (listener_bind_config K sa cfg)) (\<lambda>l. ok \<lparr>pl_inner = l\<rparr>))"

definition py_listener_bind_multi :: "('w, 'x) kernel_scheme \<Rightarrow> string list \<Rightarrow> PyConfig option \<Rightarrow>
    (PyErr, PyListener, runtime \<times> 'w sys) prog" where
  "py_listener_bind_multi K addrs config = (case parse_addrs addrs of
     Inl e \<Rightarrow> err e
   | Inr sas \<Rightarrow> let cfg = config_or_default config in
       and_then (in_runtime K (listener_bind_multi_with K sas cfg)) (\<lambda>l. ok \<lparr>pl_inner = l\<rparr>))"

definition py_accept :: "('w, 'x) kernel_scheme \<Rightarrow> ('w \<Rightarrow> PyErr option) \<Rightarrow> PyListener \<Rightarrow> nat \<Rightarrow>
    'w sys \<Rightarrow> (PyErr + PyAssociation \<times> string) turn \<times> 'w sys" where
  "py_accept K no_loop l n = future_into_py no_loop (\<lambda>s. case accept K (pl_inner l) n s of
     (t, s') \<Rightarrow> (map_result K (\<lambda>(a, peer). (\<lparr>pa_inner = a\<rparr>, socket_addr_text peer)) t, s'))"

definition py_listener_local_addr :: "('w, 'x) kernel_scheme \<Rightarrow> PyListener \<Rightarrow> (PyErr, string, 'w sys) prog" where
  "py_listener_local_addr K l s = (case listener_local_addr K (pl_inner l) s of
     (r, s') \<Rightarrow> (map_sum (py_err K) socket_addr_text r, s'))"

section \<open>The server\<close>

record PyServer =
  ps_inner :: SctpServer

definition py_server_bind :: "('w, 'x) kernel_scheme \<Rightarrow> string \<Rightarrow> PyConfig option \<Rightarrow>
    (PyErr, PyServer, runtime \<times> 'w sys) prog" where
  "py_server_bind K addr config = (case parse_addr addr of
     Inl e \<Rightarrow> err e
   | Inr sa \<Rightarrow> let cfg = config_or_default config in
       and_then (in_runtime K (server_bind_config K sa cfg)) (\<lambda>v. ok \<lparr>ps_inner = v\<rparr>))"

definition py_server_bind_multi :: "('w, 'x) kernel_scheme \<Rightarrow> string list \<Rightarrow> PyConfig option \<Rightarrow>
    (PyErr, PyServer, runtime \<times> 'w sys) prog" where
  "py_server_bind_multi K addrs config = (case parse_addrs addrs of
     Inl e \<Rightarrow> err e
   | Inr sas \<Rightarrow> let cfg = config_or_default config in
       and_then (in_runtime K (server_bind_multi_with K sas cfg)) (\<lambda>v. ok \<lparr>ps_inner = v\<rparr>))"

text \<open>
  The loop of \<open>PyServer::recv\<close> goes round again after a notification; its only await is that of the
  receive, so a turn of it is a turn of the server's.
\<close>

definition py_server_recv_turn :: "('w, 'x) kernel_scheme \<Rightarrow> PyServer \<times> 'w sys \<Rightarrow>
    (PyErr + bytes \<times> PyRecvInfo \<times> string) turn \<times> PyServer \<times> 'w sys" where
  "py_server_recv_turn K = (\<lambda>(pv, s). case server_recv_turn K (ps_inner pv, s) of (t, v, s') \<Rightarrow>
     ((case t of
         Return (Inl e) \<Rightarrow> Return (Inl (py_err K e))
       | Return (Inr (ServerData data info addr)) \<Rightarrow> Return (Inr (data, py_recv_info info, socket_addr_text addr))
       | Return (Inr (ServerNotification _)) \<Rightarrow> Again
       | Again \<Rightarrow> Again
       | Panicked \<Rightarrow> Panicked), pv\<lparr>ps_inner := v\<rparr>, s'))"

definition py_server_recv :: "('w, 'x) kernel_scheme \<Rightarrow> ('w \<Rightarrow> PyErr option) \<Rightarrow> nat \<Rightarrow> PyServer \<times> 'w sys \<Rightarrow>
    (PyErr + bytes \<times> PyRecvInfo \<times> string) turn \<times> PyServer \<times> 'w sys" where
  "py_server_recv K no_loop n = (\<lambda>(pv, s). case no_loop (kern s) of
     Some e \<Rightarrow> (Return (Inl e), pv, s)
   | None \<Rightarrow> run_turns (py_server_recv_turn K) n (pv, s))"

definition py_server_send :: "('w, 'x) kernel_scheme \<Rightarrow> ('w \<Rightarrow> PyErr option) \<Rightarrow> nat \<Rightarrow> i32 \<Rightarrow> bytes \<Rightarrow> u16 \<Rightarrow> u32 \<Rightarrow>
    bool \<Rightarrow> u32 \<Rightarrow> PyServer \<times> 'w sys \<Rightarrow> (PyErr + usize) turn \<times> PyServer \<times> 'w sys" where
  "py_server_send K no_loop n aid data sid pp unord ttl = (\<lambda>(pv, s). case no_loop (kern s) of
     Some e \<Rightarrow> (Return (Inl e), pv, s)
   | None \<Rightarrow> (case server_send_with K n aid data sid pp (py_options unord ttl) (ps_inner pv, s) of
        (t, v, s') \<Rightarrow> (map_result K id t, pv\<lparr>ps_inner := v\<rparr>, s')))"

definition py_peeloff :: "('w, 'x) kernel_scheme \<Rightarrow> PyServer \<Rightarrow> i32 \<Rightarrow> (PyErr, PyAssociation, runtime \<times> 'w sys) prog" where
  "py_peeloff K pv aid = and_then (in_runtime K (peeloff K (ps_inner pv) aid)) (\<lambda>a. ok \<lparr>pa_inner = a\<rparr>)"

definition py_server_local_addr :: "('w, 'x) kernel_scheme \<Rightarrow> PyServer \<Rightarrow> (PyErr, string, 'w sys) prog" where
  "py_server_local_addr K pv s = (case server_local_addr K (ps_inner pv) s of
     (r, s') \<Rightarrow> (map_sum (py_err K) socket_addr_text r, s'))"

section \<open>The module\<close>

definition PPIDS :: "(string \<times> u32) list" where
  "PPIDS = [(''IUA'', IUA), (''M2UA'', M2UA), (''M3UA'', M3UA), (''SUA'', SUA), (''M2PA'', M2PA),
     (''V5UA'', V5UA), (''S1AP'', S1AP), (''X2AP'', X2AP), (''NGAP'', NGAP), (''XNAP'', XNAP),
     (''F1AP'', F1AP), (''E1AP'', E1AP), (''DIAMETER'', DIAMETER)]"

datatype py_value = PyType string | PyInt u32

text \<open>\<open>m.add(name, value)?\<close> for each of a list of attributes.\<close>

fun add_all :: "(string \<Rightarrow> py_value \<Rightarrow> 'm \<Rightarrow> PyErr + 'm) \<Rightarrow> (string \<times> py_value) list \<Rightarrow> 'm \<Rightarrow> PyErr + 'm" where
  "add_all add [] m = Inr m"
| "add_all add ((x, v) # xs) m = (case add x v m of Inl e \<Rightarrow> Inl e | Inr m' \<Rightarrow> add_all add xs m')"

definition module_contents :: "(string \<times> py_value) list" where
  "module_contents = [(''SctpError'', PyType ''SctpError''), (''RecvInfo'', PyType ''RecvInfo''),
     (''SctpConfig'', PyType ''SctpConfig''), (''SctpAssociation'', PyType ''SctpAssociation''),
     (''SctpListener'', PyType ''SctpListener''), (''SctpServer'', PyType ''SctpServer'')]
     @ map (\<lambda>(x, v). (x, PyInt v)) PPIDS"

definition add_contents :: "(string \<Rightarrow> py_value \<Rightarrow> 'm \<Rightarrow> PyErr + 'm) \<Rightarrow> 'm \<Rightarrow> runtime \<Rightarrow> (PyErr + 'm) \<times> runtime" where
  "add_contents add m p = (add_all add module_contents m, init_runtime p)"

text \<open>The standalone entry point, and the one that mounts the module in a parent.\<close>

definition async_sctp_module :: "(string \<Rightarrow> py_value \<Rightarrow> 'm \<Rightarrow> PyErr + 'm) \<Rightarrow> 'm \<Rightarrow> runtime \<Rightarrow> (PyErr + 'm) \<times> runtime" where
  "async_sctp_module add m p = add_contents add m p"

definition py_register :: "(string \<Rightarrow> py_value \<Rightarrow> 'm \<Rightarrow> PyErr + 'm) \<Rightarrow> (string \<Rightarrow> PyErr + 'm) \<Rightarrow>
    (string \<Rightarrow> 'm \<Rightarrow> 'p \<Rightarrow> PyErr + 'p) \<Rightarrow> 'p \<Rightarrow> runtime \<Rightarrow> (PyErr + 'p) \<times> runtime" where
  "py_register add new setattr parent p = (case new ''async_sctp'' of
     Inl e \<Rightarrow> (Inl e, p)
   | Inr m \<Rightarrow>
       (case add_contents add m p of
          (Inl e, p') \<Rightarrow> (Inl e, p')
        | (Inr m', p') \<Rightarrow> (setattr ''async_sctp'' m' parent, p')))"

section \<open>Addresses as text\<close>

lemma parse_addr_text [simp]: "parse_addr (socket_addr_text a) = Inr (no_flowinfo a)"
  by (simp add: parse_addr_def socket_addr_from_text)

lemma parse_addrs_text: "parse_addrs (map socket_addr_text as) = Inr (map no_flowinfo as)"
  by (induction as) simp_all

lemma parse_addr_invalid:
  "socket_addr_from_str s = None \<Longrightarrow> parse_addr s = Inl (PyValueError (''invalid socket address: '' @ s))"
  by (simp add: parse_addr_def)

lemma parse_addrs_invalid:
  "\<forall>s \<in> set good. socket_addr_from_str s \<noteq> None \<Longrightarrow> socket_addr_from_str bad = None \<Longrightarrow>
   parse_addrs (good @ bad # rest) = Inl (PyValueError (''invalid socket address: '' @ bad))"
  by (induction good) (auto simp: parse_addr_invalid parse_addr_def split: option.splits)

lemma parse_addrs_valid: "\<forall>s \<in> set v. socket_addr_from_str s \<noteq> None \<Longrightarrow> \<exists>as. parse_addrs v = Inr as"
  by (induction v) (auto simp: parse_addr_def)

section \<open>The number of threads\<close>

lemma worker_threads_positive: "0 < worker_threads env"
  by (simp add: worker_threads_def split: option.splits)

lemma to_digit_plus [simp]: "to_digit 10 CHR ''+'' = None"
  by (simp add: to_digit_def)

lemma usize_from_text: "n < 2 ^ 64 \<Longrightarrow> usize_from_str (dec_nat n) = Some (word_of_nat n)"
proof -
  assume n: "n < 2 ^ 64"
  obtain c r where c: "dec_nat n = c # r"
    using num_text_nonempty [of 10 n] by (cases "dec_nat n") (auto simp: num_text_dec)
  then have "to_digit 10 c \<noteq> None" using num_text_digits [of 10 n] by (auto simp: num_text_dec)
  then have p: "c \<noteq> CHR ''+''" by auto
  have "read_number 10 None True (2 ^ 64) (dec_nat n) = Some (n, [])"
    using read_number_checked [of 10 n "2 ^ 64" "[]"] n by (simp add: num_text_dec)
  with c p show ?thesis by (simp add: usize_from_str_def)
qed

lemma word_of_nat_positive: "0 < n \<Longrightarrow> n < 2 ^ 64 \<Longrightarrow> 0 < (word_of_nat n :: usize)"
  by (simp add: word_less_nat_alt unsigned_of_nat take_bit_nat_eq_self)

text \<open>The runtime is built at most once, with at least one worker, from the setting of the first use.\<close>

definition runtime_inv :: "runtime \<Rightarrow> bool" where
  "runtime_inv p \<longleftrightarrow> installed p = (if once_done p then [worker_threads (env_threads p)] else [])"

lemma init_runtime_inv: "runtime_inv p \<Longrightarrow> runtime_inv (init_runtime p) \<and> once_done (init_runtime p)"
  by (simp add: runtime_inv_def init_runtime_def)

lemma init_runtime_idem [simp]: "init_runtime (init_runtime p) = init_runtime p"
  by (simp add: init_runtime_def)

section \<open>The receive of a server\<close>

definition py_server_inv :: "('w, 'x) kernel_scheme \<Rightarrow> PyServer \<times> 'w sys \<Rightarrow> bool" where
  "py_server_inv K = (\<lambda>(pv, s). server_inv K (ps_inner pv, s))"

definition py_server_acc :: "PyServer \<times> 'w sys \<Rightarrow> bytes" where
  "py_server_acc = (\<lambda>(pv, s). buf (sv_recv_state (ps_inner pv)))"

definition py_server_offers :: "('w, 'x) kernel_scheme \<Rightarrow> PyServer \<times> 'w sys \<Rightarrow> chunk list \<Rightarrow> bool" where
  "py_server_offers K = (\<lambda>(pv, s). delivers K True (sv_inner (ps_inner pv)) (kern s))"

definition py_server_message :: "bytes \<times> RecvInfo \<times> SocketAddr option \<Rightarrow> bytes \<times> PyRecvInfo \<times> string" where
  "py_server_message = (\<lambda>(data, info, addr). (data, py_recv_info info, socket_addr_text (the addr)))"

lemmas py_server_defs = py_server_inv_def server_inv_def py_server_acc_def py_server_offers_def py_server_message_def

interpretation py_server_messages: message_reader "py_server_recv_turn K" py_server_acc "py_server_inv K"
  "py_server_offers K" "target_endian K" "\<lambda>(d, flags, sinfo, addr). addr \<noteq> None" py_server_message for K
proof
  fix ps :: "PyServer \<times> 'a sys" and c cs
  obtain pv s where ps: "ps = (pv, s)" by (cases ps)
  let ?e = "target_endian K" and ?b = "buf (sv_recv_state (ps_inner pv))" and ?fd = "sv_inner (ps_inner pv)"
  assume inv: "py_server_inv K ps" and off: "py_server_offers K ps (c # cs)"
  obtain st b' where push: "push_input ?e ?b c = (st, b')" by fastforce
  note cases = push_input_cases [OF push]
  obtain s1 r s' where d: "poll_ready K ?fd READABLE s = (Ready, s1)" "delivers K True ?fd (kern s') cs"
    "recv_step K ?fd True (sv_recv_state (ps_inner pv)) s1 = (Some st, r, s')" "buf r = b'" "reassembly_inv r"
    using delivers_step [of K "sv_recv_state (ps_inner pv)" True ?fd s c cs] inv off push
    by (auto simp: ps py_server_defs)
  have ok: "recvmsg_ok K" using inv by (simp add: ps py_server_defs)
  show "\<exists>ps'. py_server_recv_turn K ps = (Again, ps') \<and> py_server_inv K ps' \<and> py_server_offers K ps' cs
      \<and> py_server_acc ps' = snd (push_input ?e (py_server_acc ps) c)" if "\<not> (is_data_chunk c \<and> is_last_chunk c)"
  proof (cases "is_data_chunk c")
    case True
    with that cases(2) have "st = More" by simp
    with d ok push show ?thesis
      by (auto simp: ps py_server_recv_turn_def server_recv_turn_def py_server_defs Let_def)
  next
    case False
    with cases(1) obtain n where "st = StepNotification n" by blast
    with d ok push show ?thesis
      by (auto simp: ps py_server_recv_turn_def server_recv_turn_def py_server_defs Let_def)
  qed
  show "\<exists>ps'. py_server_recv_turn K ps = (Return (Inr (py_server_message (message_of ?e (py_server_acc ps @ fst c) c))), ps')
      \<and> py_server_inv K ps' \<and> py_server_offers K ps' cs \<and> py_server_acc ps' = []"
    if "is_data_chunk c" "is_last_chunk c" "case c of (d, flags, sinfo, addr) \<Rightarrow> addr \<noteq> None"
    using cases(3) [OF that(1,2)] that(3) d ok
    by (cases c) (auto simp: ps py_server_recv_turn_def server_recv_turn_def py_server_defs Let_def)
qed

section \<open>The calls of a process\<close>

text \<open>
  A Python program, as far as the runtime is concerned: any sequence of the calls that touch it, the
  import of the module included.
\<close>

inductive py_call :: "('w, 'x) kernel_scheme \<Rightarrow> ('w \<Rightarrow> PyErr option) \<Rightarrow> (string \<Rightarrow> py_value \<Rightarrow> 'm \<Rightarrow> PyErr + 'm) \<Rightarrow>
    runtime \<times> 'w sys \<Rightarrow> runtime \<times> 'w sys \<Rightarrow> bool" for K no_loop add where
  import_module: "async_sctp_module add m p = (r, p') \<Longrightarrow> py_call K no_loop add (p, s) (p', s)"
| connect: "py_connect K no_loop n addr config ps = (t, ps') \<Longrightarrow> py_call K no_loop add ps ps'"
| connect_multi: "py_connect_multi K no_loop n addrs config locals ps = (t, ps') \<Longrightarrow> py_call K no_loop add ps ps'"
| listener_bind: "py_listener_bind K addr config ps = (l, ps') \<Longrightarrow> py_call K no_loop add ps ps'"
| listener_bind_multi: "py_listener_bind_multi K addrs config ps = (l, ps') \<Longrightarrow> py_call K no_loop add ps ps'"
| server_bind: "py_server_bind K addr config ps = (v, ps') \<Longrightarrow> py_call K no_loop add ps ps'"
| server_bind_multi: "py_server_bind_multi K addrs config ps = (v, ps') \<Longrightarrow> py_call K no_loop add ps ps'"
| peel: "py_peeloff K pv aid ps = (a, ps') \<Longrightarrow> py_call K no_loop add ps ps'"

lemma in_runtime_runtime: "in_runtime K f (p, s) = (r, p', s') \<Longrightarrow> p' = init_runtime p"
  by (auto simp: in_runtime_def split: prod.splits)

lemma wrapped_runtime: "and_then (in_runtime K f) (\<lambda>x. ok (g x)) (p, s) = (r, p', s') \<Longrightarrow> p' = init_runtime p"
  by (auto simp: and_then_def prog_apply split: prod.splits sum.splits dest: in_runtime_runtime)

lemma py_call_runtime: "py_call K no_loop add ps ps' \<Longrightarrow> fst ps' = fst ps \<or> fst ps' = init_runtime (fst ps)"
proof (induction rule: py_call.induct)
  case (import_module m p r p' s)
  then show ?case by (auto simp: async_sctp_module_def add_contents_def)
next
  case (connect n addr config ps t ps')
  then show ?case
    by (cases ps) (auto simp: py_connect_def Let_def split: sum.splits prod.splits)
next
  case (connect_multi n addrs config locals ps t ps')
  then show ?case
    by (cases ps) (auto simp: py_connect_multi_def Let_def split: sum.splits prod.splits)
next
  case (listener_bind addr config ps l ps')
  then show ?case
    by (cases ps; cases ps') (auto simp: py_listener_bind_def Let_def prog_apply dest: wrapped_runtime split: sum.splits)
next
  case (listener_bind_multi addrs config ps l ps')
  then show ?case
    by (cases ps; cases ps') (auto simp: py_listener_bind_multi_def Let_def prog_apply dest: wrapped_runtime split: sum.splits)
next
  case (server_bind addr config ps v ps')
  then show ?case
    by (cases ps; cases ps') (auto simp: py_server_bind_def Let_def prog_apply dest: wrapped_runtime split: sum.splits)
next
  case (server_bind_multi addrs config ps v ps')
  then show ?case
    by (cases ps; cases ps') (auto simp: py_server_bind_multi_def Let_def prog_apply dest: wrapped_runtime split: sum.splits)
next
  case (peel pv aid ps a ps')
  then show ?case
    by (cases ps; cases ps') (auto simp: py_peeloff_def dest: wrapped_runtime)
qed

lemma init_runtime_env [simp]: "env_threads (init_runtime p) = env_threads p"
  by (simp add: init_runtime_def)

lemma py_calls_runtime:
  assumes "(py_call K no_loop add)\<^sup>*\<^sup>* ps ps'" and "runtime_inv (fst ps)"
  shows "runtime_inv (fst ps') \<and> env_threads (fst ps') = env_threads (fst ps) \<and> (once_done (fst ps) \<longrightarrow> fst ps' = fst ps)"
  using assms
proof (induction rule: rtranclp_induct)
  case base
  then show ?case by simp
next
  case (step y z)
  from py_call_runtime [OF step(2)] step.IH [OF step.prems] show ?case
    by (elim disjE) (auto simp: init_runtime_inv init_runtime_def [of "fst y"] runtime_inv_def)
qed

section \<open>The attributes of a module\<close>

text \<open>What the documentation of \<open>PyModule::add\<close> says: the attribute is set and the others stay.\<close>

definition module_ok :: "(string \<Rightarrow> py_value \<Rightarrow> 'm \<Rightarrow> PyErr + 'm) \<Rightarrow> ('m \<Rightarrow> string \<rightharpoonup> py_value) \<Rightarrow> bool" where
  "module_ok add get \<longleftrightarrow> (\<forall>x v m m'. add x v m = Inr m' \<longrightarrow> get m' = (get m)(x \<mapsto> v))"

lemma add_all_get: "module_ok add get \<Longrightarrow> add_all add xs m = Inr m' \<Longrightarrow> get m' = get m ++ map_of (rev xs)"
  by (induction add xs m rule: add_all.induct) (auto simp: module_ok_def map_add_def fun_eq_iff split: sum.splits option.splits)

lemma map_of_rev: "distinct (map fst xs) \<Longrightarrow> map_of (rev xs) = map_of xs"
proof (induction xs)
  case (Cons a xs)
  then have "dom (map_of xs) \<inter> dom [fst a \<mapsto> snd a] = {}" by (auto simp: dom_map_of_conv_image_fst)
  with Cons map_add_comm [of "map_of xs" "[fst a \<mapsto> snd a]"] show ?case by (cases a) simp
qed simp

lemma module_contents_distinct: "distinct (map fst module_contents)"
  by (simp add: module_contents_def PPIDS_def)

lemma PPIDS_named: "(x, v) \<in> set PPIDS \<Longrightarrow> ppid_name v = Some x"
proof -
  have "\<forall>(x, v) \<in> set PPIDS. ppid_name v = Some x"
    by (simp add: PPIDS_def ppid_name_table ppid_table_def ppid_consts)
  then show "(x, v) \<in> set PPIDS \<Longrightarrow> ppid_name v = Some x" by blast
qed

section \<open>Properties\<close>

text \<open>
  C20: addresses go from the kernel to a Python program and back. When \<open>sctp_getpaddrs\<close> returns an array of
  peer addresses of either family, whatever follows it in memory, \<open>peer_addrs\<close> returns their texts in
  order and the array is freed; and those texts, given to a constructor, are read as the same addresses,
  but for the flow label, which a text does not hold.
\<close>

theorem py_addresses_round_trip:
  assumes "libc_ok K" and "length as < 2 ^ 31"
    and "k_getpaddrs K (inner (pa_inner pa)) 0 (kern s) = ((word_of_nat (length as), ptr, pack K as @ rest), w)"
  shows "\<exists>s'. py_peer_addrs K pa s = (Inr (map socket_addr_text as), s')
    \<and> trace s' = trace s @ [Call_getpaddrs (inner (pa_inner pa)) 0 ptr, Call_freepaddrs ptr]
    \<and> parse_addrs (map socket_addr_text as) = Inr (map no_flowinfo as)"
proof -
  have n: "sint (word_of_nat (length as) :: i32) = int (length as)" using assms(2) by (rule sint_word_of_nat)
  have "parse_array K (pack K as @ rest) (word_of_nat (length as)) = as"
    using parse_array_packed [OF assms(1), of "word_of_nat (length as)" as rest] n by simp
  with assms(3) n show ?thesis
    by (simp add: py_peer_addrs_def peer_addrs_def addrs_via_def syscall_def syscall_unit_def neg_def parse_addrs_text)
qed

definition multihomed_kernel :: "sample_world kernel" where
  "multihomed_kernel = sample_kernel\<lparr>k_getpaddrs := (\<lambda>_ _ w. ((2, 4096, pack linux_libc [V4 2130706433 38412, V6 1 38412 0 3]), w))\<rparr>"

lemma multihomed_libc:
  "libc_ok multihomed_kernel" "pack multihomed_kernel [V4 a p, V6 b q fl sc] = pack linux_libc [V4 a p, V6 b q fl sc]"
  by (simp_all add: multihomed_kernel_def sample_defs libc_ok_def sockaddr_in_fields_def sockaddr_in6_fields_def apart_def
      to_raw_def Let_def zeroed_storage_def)

theorem py_addresses_round_trip_witness:
  "\<exists>s'. py_peer_addrs multihomed_kernel \<lparr>pa_inner = new_association 3\<rparr> (sample_sys [] 0)
      = (Inr (map socket_addr_text [V4 2130706433 38412, V6 1 38412 0 3]), s')
    \<and> parse_addrs (map socket_addr_text [V4 2130706433 38412, V6 1 38412 0 3])
      = Inr [V4 2130706433 38412, V6 1 38412 0 3]"
proof -
  let ?as = "[V4 2130706433 38412, V6 1 38412 0 3]"
  have k: "k_getpaddrs multihomed_kernel (inner (pa_inner \<lparr>pa_inner = new_association 3\<rparr>)) 0 (kern (sample_sys [] 0))
      = ((word_of_nat (length ?as), 4096, pack multihomed_kernel ?as @ []), kern (sample_sys [] 0))"
    unfolding multihomed_libc by (simp add: multihomed_kernel_def)
  from py_addresses_round_trip [OF multihomed_libc(1) _ k] show ?thesis by auto
qed

text \<open>
  C31: an address that does not parse. Every constructor that is given one, alone or in a list in which
  those before it parse, raises \<open>ValueError\<close> with the text of that address, before any call to the kernel;
  so does \<open>connect_multi\<close> for its local addresses.
\<close>

theorem py_invalid_address:
  assumes "\<forall>s \<in> set good. socket_addr_from_str s \<noteq> None" and "socket_addr_from_str bad = None"
    and "e = PyValueError (''invalid socket address: '' @ bad)"
  shows "py_connect K no_loop n bad config (p, s) = (Return (Inl e), init_runtime p, s)
    \<and> py_connect_multi K no_loop n (good @ bad # rest) config locals (p, s) = (Return (Inl e), init_runtime p, s)
    \<and> py_connect_multi K no_loop n good config (Some (good @ bad # rest)) (p, s) = (Return (Inl e), init_runtime p, s)
    \<and> py_listener_bind K bad config (p, s) = (Inl e, p, s)
    \<and> py_listener_bind_multi K (good @ bad # rest) config (p, s) = (Inl e, p, s)
    \<and> py_server_bind K bad config (p, s) = (Inl e, p, s)
    \<and> py_server_bind_multi K (good @ bad # rest) config (p, s) = (Inl e, p, s)"
proof -
  note bad = parse_addr_invalid [OF assms(2)] parse_addrs_invalid [OF assms(1,2)]
  obtain as where "parse_addrs good = Inr as" using parse_addrs_valid [OF assms(1)] by blast
  with bad show ?thesis
    by (simp add: assms(3) prog_apply py_connect_def py_connect_multi_def py_listener_bind_def py_listener_bind_multi_def
        py_server_bind_def py_server_bind_multi_def)
qed

theorem py_invalid_address_witness:
  "py_connect_multi sample_kernel (\<lambda>_. None) 5 [socket_addr_text (V4 2130706433 80), ''localhost:80''] None None
      (\<lparr>env_threads = None, once_done = True, installed = [2]\<rparr>, sample_sys [] 0)
    = (Return (Inl (PyValueError ''invalid socket address: localhost:80'')),
       \<lparr>env_threads = None, once_done = True, installed = [2]\<rparr>, sample_sys [] 0)"
proof -
  have g: "\<forall>s \<in> set [socket_addr_text (V4 2130706433 80)]. socket_addr_from_str s \<noteq> None"
    by (simp only: list.set ball_simps socket_addr_from_text) simp
  have b: "socket_addr_from_str ''localhost:80'' = None"
    using read_octets_stops [of "''localhost:80''"]
    by (simp add: socket_addr_from_str_def read_socket_addr_def read_socket_addr_v4_def read_socket_addr_v6_def to_digit_def)
  from py_invalid_address [OF g b refl, of sample_kernel "\<lambda>_. None" 5 None _ "sample_sys [] 0" "[]" None] show ?thesis
    by (simp add: init_runtime_def del: socket_addr_text.simps)
qed

text \<open>
  A configuration made in Python. Applied to a socket it sets exactly what was given, in the order of
  the options: the INIT parameters when one of the stream counts is not zero, with the two counts and the
  kernel's own attempts and timeout, and each further option when it is not \<open>None\<close>. With no arguments it is
  the same as no configuration.
\<close>

lemma py_config_exact:
  "config_apply K (config_or_default (Some (py_config_new out max_in nd rcv snd_buf ac))) fd = set_all K fd (
     (if out = 0 \<and> max_in = 0 then []
      else [(SOL_SCTP, SCTP_INITMSG, ne_bytes (target_endian K) 2 out @ ne_bytes (target_endian K) 2 max_in @ [0, 0, 0, 0])])
     @ (case nd of None \<Rightarrow> [] | Some on \<Rightarrow> [(SOL_SCTP, SCTP_NODELAY, ne_bytes (target_endian K) 4 (if on then 1 else 0 :: i32))])
     @ (case rcv of None \<Rightarrow> [] | Some b \<Rightarrow> [(SOL_SOCKET K, SO_RCVBUF K, ne_bytes (target_endian K) 4 (ucast b :: i32))])
     @ (case snd_buf of None \<Rightarrow> [] | Some b \<Rightarrow> [(SOL_SOCKET K, SO_SNDBUF K, ne_bytes (target_endian K) 4 (ucast b :: i32))])
     @ (case ac of None \<Rightarrow> [] | Some t \<Rightarrow> [(SOL_SCTP, SCTP_AUTOCLOSE, ne_bytes (target_endian K) 4 t)]))
   \<and> config_or_default (Some (py_config_new 0 0 None None None None)) = config_or_default None"
  by (simp add: config_or_default_def config_apply_set_all config_options_def py_config_fields Let_def ne_bytes_2_zero
      default_SctpConfig_def)

text \<open>
  \<open>await server.recv()\<close> returns the next message. If the kernel delivers the parts of a message with
  notifications anywhere between them, and the sender's address with the last part, then it returns after
  as many polls the whole message, its metadata and the sender's address as text, which parses back to it.
\<close>

lemma py_server_recv_returns:
  assumes "recvmsg_ok K" and "reassembly_inv (sv_recv_state (ps_inner pv))" and "no_loop (kern s) = None"
    and "delivers K True (sv_inner (ps_inner pv)) (kern s) cs"
    and "is_record is_last_chunk (filter is_data_chunk cs)" and "is_data_chunk (last cs)"
    and "last cs = (d, flags, sinfo, Some peer)"
  shows "\<exists>pv' s'. py_server_recv K no_loop (length cs) (pv, s) =
      (Return (Inr (buf (sv_recv_state (ps_inner pv)) @ concat (map fst (filter is_data_chunk cs)),
         \<lparr>py_stream = sinfo_stream sinfo, py_ppid = from_be (target_endian K) 4 (sinfo_ppid sinfo),
          py_assoc_id = sinfo_assoc_id sinfo\<rparr>, socket_addr_text peer)), pv', s')
    \<and> buf (sv_recv_state (ps_inner pv')) = [] \<and> parse_addr (socket_addr_text peer) = Inr (no_flowinfo peer)"
  using py_server_messages.run_returns [of K "(pv, s)" cs "[]"] assms
  by (auto simp: py_server_recv_def py_server_defs py_recv_info_def info_of_def simp del: socket_addr_text.simps)

definition addressed_kernel :: "sample_world kernel" where
  "addressed_kernel = sample_kernel\<lparr>k_recvmsg := (\<lambda>_ n _ w. case sample_recvmsg n w of
     (out, w') \<Rightarrow> (out\<lparr>ro_from := raw_bytes sample_kernel (V4 2130706433 38412)\<rparr>, w'))\<rparr>"

lemma addressed_sender:
  "ro_from out = raw_bytes sample_kernel (V4 ip p) \<Longrightarrow> sender_of addressed_kernel True out = Some (V4 ip p)"
proof -
  have "raw_bytes sample_kernel (V4 ip p) = raw_bytes addressed_kernel (V4 ip p)"
    by (simp add: raw_bytes_def to_raw_def addressed_kernel_def zeroed_storage_def)
  moreover have "libc_ok addressed_kernel"
    by (simp add: addressed_kernel_def sample_defs libc_ok_def sockaddr_in_fields_def sockaddr_in6_fields_def apart_def)
  ultimately show "ro_from out = raw_bytes sample_kernel (V4 ip p) \<Longrightarrow> ?thesis" by (simp add: sender_of_def from_raw_copied)
qed

lemma addressed_calls:
  "k_recvmsg addressed_kernel fd n want w = (case sample_recvmsg n w of
     (out, w') \<Rightarrow> (out\<lparr>ro_from := raw_bytes sample_kernel (V4 2130706433 38412)\<rparr>, w'))"
  "k_ready addressed_kernel fd = sample_ready" "target_endian addressed_kernel = Little"
  by (simp_all add: addressed_kernel_def sample_calls)

lemma addressed_recvmsg_ok: "recvmsg_ok addressed_kernel"
proof -
  have k: "k_recvmsg sample_kernel fd n want w = sample_recvmsg n w" for fd n want w
    by (simp add: sample_kernel_def libc.defs del: sample_recvmsg.simps)
  have "ro_data (fst (k_recvmsg addressed_kernel fd n want w)) = ro_data (fst (k_recvmsg sample_kernel fd n want w))"
    "ro_ret (fst (k_recvmsg addressed_kernel fd n want w)) = ro_ret (fst (k_recvmsg sample_kernel fd n want w))" for fd n want w
    by (simp_all add: addressed_calls k del: sample_recvmsg.simps split: prod.splits)
  with sample_recvmsg_ok show ?thesis unfolding recvmsg_ok_def by (simp only:) blast
qed

text \<open>
  C32: the runtime of a process is built once. After any sequence of imports, connects, binds and peeloffs, of
  which any may fail, at most one builder has been installed, with at least one worker, and the number of
  workers is the one that \<open>ASYNC_SCTP_WORKER_THREADS\<close> names when it is the text of a positive number of 64
  bits, and two when it is not set; once built, no call changes it.
\<close>

theorem py_runtime_once:
  assumes "(py_call K no_loop add)\<^sup>*\<^sup>* (\<lparr>env_threads = env, once_done = False, installed = []\<rparr>, s) (p, s')"
    and "(py_call K no_loop add)\<^sup>*\<^sup>* (p, s') (q, s'')"
  shows "installed p = (if once_done p then [worker_threads env] else []) \<and> 0 < worker_threads env
    \<and> (0 < n \<and> n < 2 ^ 64 \<longrightarrow> worker_threads (Some (dec_nat n)) = word_of_nat n) \<and> worker_threads None = 2
    \<and> (once_done p \<longrightarrow> q = p)"
proof -
  have p: "runtime_inv p" "env_threads p = env"
    using py_calls_runtime [OF assms(1)] by (simp_all add: runtime_inv_def)
  have "once_done p \<longrightarrow> q = p" using py_calls_runtime [OF assms(2)] p(1) by simp
  moreover have "worker_threads (Some (dec_nat n)) = word_of_nat n" if "0 < n" "n < 2 ^ 64"
    using that by (simp add: worker_threads_def usize_from_text word_of_nat_positive)
  ultimately show ?thesis
    using p worker_threads_positive [of env] by (simp add: runtime_inv_def worker_threads_def)
qed

text \<open>A module as the map of its attributes.\<close>

definition set_attribute :: "string \<Rightarrow> py_value \<Rightarrow> (string \<rightharpoonup> py_value) \<Rightarrow> PyErr + (string \<rightharpoonup> py_value)" where
  "set_attribute x v m = Inr (m(x \<mapsto> v))"

lemma add_all_set_attribute: "add_all set_attribute xs m = Inr (m ++ map_of (rev xs))"
  by (induction xs arbitrary: m) (auto simp: set_attribute_def map_add_def fun_eq_iff split: option.splits)

theorem py_runtime_once_witness:
  "installed (init_runtime \<lparr>env_threads = Some (dec_nat 8), once_done = False, installed = []\<rparr>) = [8]"
proof -
  let ?p0 = "\<lparr>env_threads = Some (dec_nat 8), once_done = False, installed = []\<rparr>"
  have "py_call sample_kernel (\<lambda>_. None) set_attribute (?p0, sample_sys [] 0) (init_runtime ?p0, sample_sys [] 0)"
    by (rule import_module [of _ "\<lambda>_. None" _ "Inr (map_of (rev module_contents))"])
      (simp add: async_sctp_module_def add_contents_def add_all_set_attribute)
  then have c: "(py_call sample_kernel (\<lambda>_. None) set_attribute)\<^sup>*\<^sup>* (?p0, sample_sys [] 0) (init_runtime ?p0, sample_sys [] 0)"
    by (rule r_into_rtranclp)
  from py_runtime_once [OF c rtranclp.rtrancl_refl, of 8] show ?thesis by (simp add: init_runtime_def)
qed

text \<open>
  The attributes of the module. After \<open>add_contents\<close> the module has every class, the exception and the
  protocol identifiers under their names, and nothing else has changed; each identifier is the one whose
  registered name, as \<open>ppid_name\<close> of a received message reports it, is the name of the constant.
\<close>

lemma py_module_contents:
  assumes "module_ok add get" and "async_sctp_module add m p = (Inr m', p')"
  shows "(\<forall>(x, v) \<in> set module_contents. get m' x = Some v)
    \<and> (\<forall>(x, v) \<in> set PPIDS. get m' x = Some (PyInt v) \<and> py_ppid_name (py_recv_info (i\<lparr>ppid := v\<rparr>)) = Some x)
    \<and> (\<forall>x. x \<notin> fst ` set module_contents \<longrightarrow> get m' x = get m x)"
proof -
  have "add_all add module_contents m = Inr m'" using assms(2) by (simp add: async_sctp_module_def add_contents_def)
  from add_all_get [OF assms(1) this] have g: "get m' = get m ++ map_of module_contents"
    by (simp add: map_of_rev module_contents_distinct)
  then have all: "get m' x = Some v" if "(x, v) \<in> set module_contents" for x v
    using that by (simp add: map_add_find_right map_of_is_SomeI [OF module_contents_distinct])
  have "get m' x = Some (PyInt v)" if "(x, v) \<in> set PPIDS" for x v
    using that by (intro all) (force simp: module_contents_def)
  moreover have "get m' x = get m x" if "x \<notin> fst ` set module_contents" for x
    using g that by (simp add: map_add_dom_app_simps(3) dom_map_of_conv_image_fst)
  ultimately show ?thesis
    using all PPIDS_named by (auto simp: py_ppid_name_def py_recv_info_def)
qed

end
