(* ===== verification/Loops.thy ===== *)
theory Loops
  imports Python
begin

text \<open>
  The receives that are loops around another receive: \<open>SctpAssociation::recv\<close> calls \<open>recv_msg\<close>, and
  \<open>PyServer::recv\<close> calls \<open>SctpServer::recv\<close>, until the result is no notification. Here they are loops as
  the source has them; \<open>recv\<close> and \<open>py_server_recv\<close>, whose turn is that of the inner receive, are the same, so what is shown of those holds of the loops.
\<close>

section \<open>A loop around an await\<close>

text \<open>A future polled at most \<open>n\<close> times, with the number of polls that are left.\<close>

fun run_polls :: "('s \<Rightarrow> 'a turn \<times> 's) \<Rightarrow> nat \<Rightarrow> 's \<Rightarrow> 'a turn \<times> nat \<times> 's" where
  "run_polls t 0 s = (Again, 0, s)"
| "run_polls t (Suc n) s = (case t s of
     (Again, s') \<Rightarrow> run_polls t n s'
   | (Return x, s') \<Rightarrow> (Return x, n, s')
   | (Panicked, s') \<Rightarrow> (Panicked, n, s'))"

lemma run_polls_turns: "run_polls t n s = (r, m, s') \<Longrightarrow> run_turns t n s = (r, s')"
  by (induction n arbitrary: s) (auto split: prod.splits turn.splits)

lemma run_polls_left: "run_polls t n s = (Return x, m, s') \<Longrightarrow> m < n"
  by (induction n arbitrary: s) (auto split: prod.splits turn.splits intro: less_SucI)

text \<open>
  \<open>loop { match f().await { \<dots> return y, \<dots> continue } }\<close>: \<open>pick\<close> is the match, \<open>None\<close> where it continues.
  Each round starts the inner future anew; it ends because a round that returns has polled it.
\<close>

function await_loop :: "('s \<Rightarrow> 'a turn \<times> 's) \<Rightarrow> ('a \<Rightarrow> 'b option) \<Rightarrow> nat \<Rightarrow> 's \<Rightarrow> 'b turn \<times> 's" where
  "await_loop t pick n s = (case run_polls t n s of
     (Return x, m, s') \<Rightarrow> (case pick x of Some y \<Rightarrow> (Return y, s') | None \<Rightarrow> await_loop t pick m s')
   | (Again, m, s') \<Rightarrow> (Again, s')
   | (Panicked, m, s') \<Rightarrow> (Panicked, s'))"
  by pat_completeness auto

termination
  by (relation "measure (\<lambda>(t, pick, n, s). n)") (auto dest: run_polls_left [OF sym])

declare await_loop.simps [simp del]

definition fused :: "('s \<Rightarrow> 'a turn \<times> 's) \<Rightarrow> ('a \<Rightarrow> 'b option) \<Rightarrow> 's \<Rightarrow> 'b turn \<times> 's" where
  "fused t pick s = (case t s of
     (Return x, s') \<Rightarrow> (case pick x of Some y \<Rightarrow> (Return y, s') | None \<Rightarrow> (Again, s'))
   | (Again, s') \<Rightarrow> (Again, s')
   | (Panicked, s') \<Rightarrow> (Panicked, s'))"

lemma run_turns_fused:
  "run_polls t n s = (r, m, s') \<Longrightarrow> run_turns (fused t pick) n s = (case r of
     Return x \<Rightarrow> (case pick x of Some y \<Rightarrow> (Return y, s') | None \<Rightarrow> run_turns (fused t pick) m s')
   | Again \<Rightarrow> (Again, s') | Panicked \<Rightarrow> (Panicked, s'))"
  by (induction n arbitrary: s) (auto simp: fused_def split: prod.splits turn.splits option.splits)

lemma await_loop_fused: "await_loop t pick n s = run_turns (fused t pick) n s"
proof (induction n arbitrary: s rule: less_induct)
  case (less n)
  obtain r m s' where r: "run_polls t n s = (r, m, s')" by (metis surj_pair)
  show ?case
  proof (cases r)
    case (Return x)
    with r run_polls_left have "m < n" by fast
    with less.IH r Return run_turns_fused [OF r, of pick] show ?thesis
      by (subst await_loop.simps) (simp split: option.splits)
  qed (use r run_turns_fused [OF r, of pick] in \<open>simp_all add: await_loop.simps\<close>)
qed

section \<open>The two receives\<close>

fun recv_match :: "SctpError + RecvResult \<Rightarrow> (SctpError + bytes \<times> RecvInfo) option" where
  "recv_match (Inl e) = Some (Inl e)"
| "recv_match (Inr (Data d info)) = Some (Inr (d, info))"
| "recv_match (Inr (RecvNotification _)) = None"

definition recv_loop :: "('w, 'x) kernel_scheme \<Rightarrow> nat \<Rightarrow> SctpAssociation \<times> 'w sys \<Rightarrow>
    (SctpError + bytes \<times> RecvInfo) turn \<times> SctpAssociation \<times> 'w sys" where
  "recv_loop K n = await_loop (recv_msg_turn K) recv_match n"

fun py_server_match :: "('w, 'x) kernel_scheme \<Rightarrow> SctpError + ServerMessage \<Rightarrow> (PyErr + bytes \<times> PyRecvInfo \<times> string) option" where
  "py_server_match K (Inl e) = Some (Inl (py_err K e))"
| "py_server_match K (Inr (ServerData d info addr)) = Some (Inr (d, py_recv_info info, socket_addr_text addr))"
| "py_server_match K (Inr (ServerNotification _)) = None"

definition py_server_recv_loop :: "('w, 'x) kernel_scheme \<Rightarrow> ('w \<Rightarrow> PyErr option) \<Rightarrow> nat \<Rightarrow> PyServer \<times> 'w sys \<Rightarrow>
    (PyErr + bytes \<times> PyRecvInfo \<times> string) turn \<times> PyServer \<times> 'w sys" where
  "py_server_recv_loop K no_loop n = (\<lambda>(pv, s). case no_loop (kern s) of
     Some e \<Rightarrow> (Return (Inl e), pv, s)
   | None \<Rightarrow> (case await_loop (server_recv_turn K) (py_server_match K) n (ps_inner pv, s) of
        (t, v, s') \<Rightarrow> (t, pv\<lparr>ps_inner := v\<rparr>, s')))"

lemma recv_turn_fused: "recv_turn K = fused (recv_msg_turn K) recv_match"
  by (rule ext) (auto simp: recv_turn_def fused_def split: prod.splits turn.splits sum.splits RecvResult.splits)

lemma py_server_recv_turn_fused:
  "py_server_recv_turn K (pv, s) = (case fused (server_recv_turn K) (py_server_match K) (ps_inner pv, s) of
     (t, v, s') \<Rightarrow> (t, pv\<lparr>ps_inner := v\<rparr>, s'))"
  by (auto simp: py_server_recv_turn_def fused_def split: prod.splits turn.splits sum.splits ServerMessage.splits)

lemma py_server_run_fused:
  "run_turns (py_server_recv_turn K) n (pv, s) = (case run_turns (fused (server_recv_turn K) (py_server_match K)) n (ps_inner pv, s) of
     (t, v, s') \<Rightarrow> (t, pv\<lparr>ps_inner := v\<rparr>, s'))"
proof (induction n arbitrary: pv s)
  case (Suc n)
  obtain t v s' where "fused (server_recv_turn K) (py_server_match K) (ps_inner pv, s) = (t, v, s')" by (metis surj_pair)
  with Suc show ?case by (cases t) (auto simp: py_server_recv_turn_fused split: prod.splits)
qed simp

text \<open>
  The loops of the source and the turns of the model agree, for every number of polls: same result, same
  state, same calls.
\<close>

lemma recv_loop_recv: "recv_loop K n as = recv K n as"
  by (simp add: recv_loop_def recv_def await_loop_fused recv_turn_fused)

lemma py_server_recv_loop_recv: "py_server_recv_loop K no_loop n ps = py_server_recv K no_loop n ps"
  by (cases ps) (simp add: py_server_recv_loop_def py_server_recv_def await_loop_fused py_server_run_fused split: option.splits)

section \<open>Property\<close>

text \<open>
  C17: what \<open>await server.recv()\<close> gives Python. Let the kernel hand out the parts of one message with
  notifications anywhere between them, its address with the last part. Then the loop returns once it has been
  polled as often as there are parts and notifications: what was left in the accumulator and the parts in
  order, the stream, protocol identifier (in host order) and association of the last part, and the sender's
  address as a text that parses back to that address, without the flow label. The notifications are not
  seen, the accumulator is empty for the next message, and the server is the same object otherwise.
\<close>

theorem py_server_loop_returns:
  assumes "recvmsg_ok K" and "reassembly_inv (sv_recv_state (ps_inner pv))" and "no_loop (kern s) = None"
    and "delivers K True (sv_inner (ps_inner pv)) (kern s) cs"
    and "is_record is_last_chunk (filter is_data_chunk cs)" and "is_data_chunk (last cs)"
    and "last cs = (d, flags, sinfo, Some peer)"
  shows "\<exists>pv' s'. py_server_recv_loop K no_loop (length cs) (pv, s) =
      (Return (Inr (buf (sv_recv_state (ps_inner pv)) @ concat (map fst (filter is_data_chunk cs)),
         \<lparr>py_stream = sinfo_stream sinfo, py_ppid = from_be (target_endian K) 4 (sinfo_ppid sinfo),
          py_assoc_id = sinfo_assoc_id sinfo\<rparr>, socket_addr_text peer)), pv', s')
    \<and> buf (sv_recv_state (ps_inner pv')) = [] \<and> parse_addr (socket_addr_text peer) = Inr (no_flowinfo peer)"
  using py_server_recv_returns [where K = K and pv = pv and no_loop = no_loop and s = s and cs = cs and peer = peer, OF assms]
  by (simp only: py_server_recv_loop_recv)

theorem py_server_loop_returns_witness:
  "\<exists>pv' s'. py_server_recv_loop addressed_kernel (\<lambda>_. None) 3 (\<lparr>ps_inner = sample_server\<rparr>,
      sample_sys [([170], 0, sample_sinfo), ([0, 0, 0, 0], MSG_NOTIFICATION, sample_sinfo), ([187, 188], MSG_EOR, sample_sinfo)] 0)
    = (Return (Inr ([170, 187, 188], \<lparr>py_stream = 7, py_ppid = 18, py_assoc_id = 42\<rparr>, socket_addr_text (V4 2130706433 38412))), pv', s')"
proof -
  let ?p = "V4 2130706433 38412"
  let ?s = "sample_sys [([170], 0, sample_sinfo), ([0, 0, 0, 0], MSG_NOTIFICATION, sample_sinfo), ([187, 188], MSG_EOR, sample_sinfo)] 0"
  let ?cs = "[([170], 0, sample_sinfo, Some ?p), ([0, 0, 0, 0], MSG_NOTIFICATION, sample_sinfo, Some ?p), ([187, 188], MSG_EOR, sample_sinfo, Some ?p)] :: chunk list"
  let ?v = "\<lparr>ps_inner = sample_server\<rparr>"
  have inv: "reassembly_inv (sv_recv_state (ps_inner ?v))" and b: "buf (sv_recv_state (ps_inner ?v)) = []"
    by (simp_all add: sample_server_def reassembly_inv_default) (simp add: default_Reassembly_def)
  have del: "delivers addressed_kernel True (sv_inner (ps_inner ?v)) (kern ?s) ?cs"
    by (simp add: sample_sys_def sample_out_def addressed_calls RECV_WINDOW_def neg_def answer_chunk_def addressed_sender)
  have r: "is_record is_last_chunk (filter is_data_chunk ?cs)" "is_data_chunk (last ?cs)"
    by (simp_all add: is_record_def MSG_NOTIFICATION_def MSG_EOR_def)
  have f: "concat (map fst (filter is_data_chunk ?cs)) = [170, 187, 188]" "length ?cs = 3"
    by (simp_all add: MSG_NOTIFICATION_def MSG_EOR_def)
  have l: "last ?cs = ([187, 188], MSG_EOR, sample_sinfo, Some ?p)" by simp
  have "\<exists>pv' s'. py_server_recv_loop addressed_kernel (\<lambda>_. None) (length ?cs) (?v, ?s) =
      (Return (Inr (buf (sv_recv_state (ps_inner ?v)) @ concat (map fst (filter is_data_chunk ?cs)),
         \<lparr>py_stream = sinfo_stream sample_sinfo, py_ppid = from_be (target_endian addressed_kernel) 4 (sinfo_ppid sample_sinfo),
          py_assoc_id = sinfo_assoc_id sample_sinfo\<rparr>, socket_addr_text ?p)), pv', s')
    \<and> buf (sv_recv_state (ps_inner pv')) = [] \<and> parse_addr (socket_addr_text ?p) = Inr (no_flowinfo ?p)"
    by (rule py_server_loop_returns [OF addressed_recvmsg_ok inv _ del r l]) simp
  then show ?thesis
    unfolding f b by (auto simp: addressed_calls sample_sinfo_def default_SctpSndRcvInfo_def from_be_to_be
        simp del: socket_addr_text.simps)
qed

end
