(* ===== verification/Echo.thy ===== *)
theory Echo
  imports Loops
begin

text \<open>
  The echo services of \<open>examples/\<close> as clients of the crate: the one-to-many server of \<open>many_echo.rs\<close> and the
  task per association of \<open>perf.rs\<close> and \<open>leak_check.rs\<close>. Both receive and send in turn, so a service has two
  await points and remembers at which of them it is. What they promise is proved once, in locale
  \<open>echo_service\<close>, from the contracts of the receive (locale \<open>receiver\<close>) and of the send.
\<close>

section \<open>Receive, then send\<close>

datatype 'm echoing = Receiving | Echoing 'm

text \<open>\<open>pick\<close> is what is sent back for a result of the receive, \<open>None\<close> for a notification. An error ends the service.\<close>

fun echo_turn :: "('s \<Rightarrow> ('e + 'x) turn \<times> 's) \<Rightarrow> ('m \<Rightarrow> 's \<Rightarrow> ('e + 'n) turn \<times> 's) \<Rightarrow> ('x \<Rightarrow> 'm option) \<Rightarrow>
    'm echoing \<times> 's \<Rightarrow> 'e turn \<times> 'm echoing \<times> 's" where
  "echo_turn rcv snd_turn pick (Receiving, s) = (case rcv s of
     (Return (Inl e), s') \<Rightarrow> (Return e, Receiving, s')
   | (Return (Inr x), s') \<Rightarrow> (Again, (case pick x of None \<Rightarrow> Receiving | Some m \<Rightarrow> Echoing m), s')
   | (Again, s') \<Rightarrow> (Again, Receiving, s')
   | (Panicked, s') \<Rightarrow> (Panicked, Receiving, s'))"
| "echo_turn rcv snd_turn pick (Echoing m, s) = (case snd_turn m s of
     (Return (Inl e), s') \<Rightarrow> (Return e, Echoing m, s')
   | (Return (Inr n), s') \<Rightarrow> (Again, Receiving, s')
   | (Again, s') \<Rightarrow> (Again, Echoing m, s')
   | (Panicked, s') \<Rightarrow> (Panicked, Echoing m, s'))"

fun pending :: "'m echoing \<Rightarrow> 'm list" where
  "pending Receiving = []"
| "pending (Echoing m) = [m]"

text \<open>The chunks that the kernel delivers in a turn of the service.\<close>

fun echo_chunks :: "('s \<Rightarrow> chunk list) \<Rightarrow> 'm echoing \<times> 's \<Rightarrow> chunk list" where
  "echo_chunks chunks (Receiving, s) = chunks s"
| "echo_chunks chunks (Echoing m, s) = []"

section \<open>The contract\<close>

locale echo_service = receiver turn chunks acc inv push report
  for turn :: "'s \<Rightarrow> ('e + 'x) turn \<times> 's" and chunks :: "'s \<Rightarrow> chunk list" and acc :: "'s \<Rightarrow> bytes"
    and inv :: "'s \<Rightarrow> bool" and push :: "bytes \<Rightarrow> chunk \<Rightarrow> Step \<times> bytes" and report :: "Step \<Rightarrow> 'x option" +
  fixes send_turn :: "'m \<Rightarrow> 's \<Rightarrow> ('e + 'n) turn \<times> 's"
    and pick :: "'x \<Rightarrow> 'm option"
    and accepted :: "'s \<Rightarrow> 'c list"
    and shown :: "'c \<Rightarrow> 'm"
  assumes receive_sends_nothing: "turn s = (t, s') \<Longrightarrow> accepted s' = accepted s"
    and send_keeps: "send_turn m s = (u, s') \<Longrightarrow> acc s' = acc s \<and> (inv s \<longrightarrow> inv s')"
    and send_waits: "send_turn m s = (Again, s') \<Longrightarrow> accepted s' = accepted s"
    and send_fails: "send_turn m s = (Return (Inl e), s') \<Longrightarrow> accepted s' = accepted s"
    and send_sends: "send_turn m s = (Return (Inr n), s') \<Longrightarrow> \<exists>c. accepted s' = accepted s @ [c] \<and> shown c = m"
begin

lemma echo_turn_ledger:
  assumes "inv s" and "echo_turn turn send_turn pick (p, s) = (Again, p', s')"
  shows "inv s' \<and> acc s' = snd (feed push (acc s) (echo_chunks chunks (p, s)))
    \<and> map shown (accepted s') @ pending p' = map shown (accepted s) @ pending p
      @ List.map_filter pick (List.map_filter report (fst (feed push (acc s) (echo_chunks chunks (p, s)))))"
proof (cases p)
  case Receiving
  obtain t s1 where t: "turn s = (t, s1)" by fastforce
  note f = turn_feeds [OF assms(1) t] and k = receive_sends_nothing [OF t]
  have s1: "s1 = s'" using assms(2) t Receiving by (auto split: turn.splits sum.splits)
  have "pending p' = List.map_filter pick (List.map_filter turn_result [t])"
    using assms(2) t Receiving
    by (auto simp: List.map_filter_simps split: turn.splits sum.splits option.splits)
  with f k s1 Receiving show ?thesis by auto
next
  case (Echoing m)
  obtain t s1 where t: "send_turn m s = (t, s1)" by fastforce
  show ?thesis
  proof (cases t)
    case Again
    with assms t Echoing send_keeps [OF t] send_waits [of m s s1] show ?thesis by (auto simp: List.map_filter_simps)
  next
    case (Return r)
    then obtain n where n: "t = Return (Inr n)" using assms(2) t Echoing by (cases r) auto
    with assms t Echoing send_keeps [OF t] send_sends [of m s n s1] show ?thesis by (auto simp: List.map_filter_simps)
  next
    case Panicked
    with assms(2) t Echoing show ?thesis by simp
  qed
qed

lemma echoes:
  "inv s \<Longrightarrow> session (echo_turn turn send_turn pick) (echo_chunks chunks) n (p, s) = (ts, cs, p', s') \<Longrightarrow> set ts \<subseteq> {Again} \<Longrightarrow>
   inv s' \<and> acc s' = snd (feed push (acc s) cs)
   \<and> map shown (accepted s') @ pending p' = map shown (accepted s) @ pending p
     @ List.map_filter pick (List.map_filter report (fst (feed push (acc s) cs)))"
proof (induction n arbitrary: p s ts cs)
  case 0
  then show ?case by (simp add: List.map_filter_simps)
next
  case (Suc n)
  obtain t p1 s1 where t: "echo_turn turn send_turn pick (p, s) = (t, p1, s1)" by (metis surj_pair)
  obtain ts1 cs1 where s1: "session (echo_turn turn send_turn pick) (echo_chunks chunks) n (p1, s1) = (ts1, cs1, p', s')"
    and ts: "ts = t # ts1" and cs: "cs = echo_chunks chunks (p, s) @ cs1"
    using Suc.prems(2) t by (auto split: prod.splits)
  have a: "t = Again" "set ts1 \<subseteq> {Again}" using Suc.prems(3) ts by auto
  note f = echo_turn_ledger [OF Suc.prems(1) t [unfolded a(1)]]
  from Suc.IH [OF _ s1 a(2)] f show ?case
    by (auto simp: cs feed_append map_filter_append split: prod.splits)
qed

end

section \<open>The one-to-many service\<close>

text \<open>
  \<open>main\<close> of \<open>many_echo.rs\<close> up to its loop; an address that does not parse is a panic (\<open>expect\<close>). The result
  holds the line it prints.
\<close>

definition many_echo_start :: "('w, 'x) kernel_scheme \<Rightarrow> string option \<Rightarrow> 'w sys \<Rightarrow>
    (SctpError + SctpServer \<times> string) turn \<times> 'w sys" where
  "many_echo_start K arg s =
     (case socket_addr_from_str (case arg of Some x \<Rightarrow> x | None \<Rightarrow> ''127.0.0.1:38412'') of
        None \<Rightarrow> (Panicked, s)
      | Some addr \<Rightarrow>
          (case server_bind K addr s of
             (Inl e, s1) \<Rightarrow> (Return (Inl e), s1)
           | (Inr v, s1) \<Rightarrow>
               (case server_local_addr K v s1 of
                  (Inl e, s2) \<Rightarrow> (Return (Inl e), drop_server K v s2)
                | (Inr a, s2) \<Rightarrow> (Return (Inr (v, ''one-to-many server on '' @ socket_addr_text a)), s2))))"

text \<open>A message to send back: association, data, stream and protocol identifier.\<close>

fun many_echo_match :: "ServerMessage \<Rightarrow> (i32 \<times> bytes \<times> u16 \<times> u32) option" where
  "many_echo_match (ServerData data info addr) = Some (assoc_id info, data, stream info, ppid info)"
| "many_echo_match (ServerNotification n) = None"

definition many_echo_send :: "('w, 'x) kernel_scheme \<Rightarrow> i32 \<times> bytes \<times> u16 \<times> u32 \<Rightarrow> SctpServer \<times> 'w sys \<Rightarrow>
    (SctpError + usize) turn \<times> SctpServer \<times> 'w sys" where
  "many_echo_send K = (\<lambda>(aid, data, sid, pp). server_send_with_turn K aid data sid pp default_SendOptions)"

definition many_echo_turn :: "('w, 'x) kernel_scheme \<Rightarrow> (i32 \<times> bytes \<times> u16 \<times> u32) echoing \<times> SctpServer \<times> 'w sys \<Rightarrow>
    SctpError turn \<times> (i32 \<times> bytes \<times> u16 \<times> u32) echoing \<times> SctpServer \<times> 'w sys" where
  "many_echo_turn K = echo_turn (server_recv_turn K) (many_echo_send K) many_echo_match"

fun server_echo :: "endian \<Rightarrow> call \<Rightarrow> i32 \<times> bytes \<times> u16 \<times> u32" where
  "server_echo e (Call_send fd data sinfo flags ret) =
     (sinfo_assoc_id sinfo, data, sinfo_stream sinfo, from_be e 4 (sinfo_ppid sinfo))"
| "server_echo e _ = (0, [], 0, 0)"

lemma poll_ready_taken: "poll_ready K fd i s = (rd, s1) \<Longrightarrow> filter taken (trace s1) = filter taken (trace s)"
  by (auto simp: poll_ready_sys)

lemma recv_step_taken: "recv_step K fd want r s = (st, r', s') \<Longrightarrow> filter taken (trace s') = filter taken (trace s)"
  using recv_step_sys [of K fd want r s] by (simp add: after_recv_def)

lemma server_recv_taken:
  assumes "server_recv_turn K (v, s) = (t, v', s')"
  shows "filter taken (trace s') = filter taken (trace s)"
proof -
  obtain rd s1 where p: "poll_ready K (sv_inner v) READABLE s = (rd, s1)" by fastforce
  obtain st r s2 where st: "recv_step K (sv_inner v) True (sv_recv_state v) s1 = (st, r, s2)" by (metis surj_pair)
  from assms p st poll_ready_taken [OF p] recv_step_taken [OF st] show ?thesis
    by (auto simp: server_recv_turn_def Let_def clear_ready_def split: readiness.splits option.splits Step.splits)
qed

interpretation many_echo: echo_service "server_recv_turn K" "server_chunks K" server_acc "server_inv K"
  "push_input (target_endian K)" server_step_result "many_echo_send K" many_echo_match server_accepted
  "server_echo (target_endian K)" for K
proof
  fix vs vs' :: "SctpServer \<times> 'a sys" and m :: "i32 \<times> bytes \<times> u16 \<times> u32"
  obtain v s where vs: "vs = (v, s)" by (cases vs)
  obtain v' s' where vs': "vs' = (v', s')" by (cases vs')
  obtain aid data sid pp where m: "m = (aid, data, sid, pp)" by (cases m)
  show "server_recv_turn K vs = (t, vs') \<Longrightarrow> server_accepted vs' = server_accepted vs" for t
    using server_recv_taken by (auto simp: vs vs' server_accepted_def)
  show "many_echo_send K m vs = (u, vs') \<Longrightarrow> server_acc vs' = server_acc vs \<and> (server_inv K vs \<longrightarrow> server_inv K vs')" for u
    using server_send.handle_kept [of K aid data sid pp default_SendOptions vs]
    by (auto simp: many_echo_send_def m vs vs' server_acc_def server_inv_def)
  show "many_echo_send K m vs = (Again, vs') \<Longrightarrow> server_accepted vs' = server_accepted vs"
    using server_send.again_keeps [of K aid data sid pp default_SendOptions vs vs'] by (simp add: many_echo_send_def m)
  show "many_echo_send K m vs = (Return (Inl e), vs') \<Longrightarrow> server_accepted vs' = server_accepted vs" for e
    using server_send.error_keeps [of K aid data sid pp default_SendOptions vs e vs'] by (simp add: many_echo_send_def m)
  show "many_echo_send K m vs = (Return (Inr n), vs') \<Longrightarrow>
      \<exists>c. server_accepted vs' = server_accepted vs @ [c] \<and> server_echo (target_endian K) c = m" for n
    using server_send.sent_once [of K aid data sid pp default_SendOptions vs n vs']
    by (simp add: many_echo_send_def m send_entry_def server_sinfo_def from_be_to_be)
qed

section \<open>The service of an association\<close>

text \<open>The task that \<open>perf.rs\<close> and \<open>leak_check.rs\<close> spawn for an accepted association.\<close>

definition assoc_echo_send :: "('w, 'x) kernel_scheme \<Rightarrow> bytes \<times> u16 \<times> u32 \<Rightarrow> SctpAssociation \<times> 'w sys \<Rightarrow>
    (SctpError + usize) turn \<times> SctpAssociation \<times> 'w sys" where
  "assoc_echo_send K = (\<lambda>(data, sid, pp). send_with_turn K data sid pp default_SendOptions)"

definition assoc_echo_turn :: "('w, 'x) kernel_scheme \<Rightarrow> (bytes \<times> u16 \<times> u32) echoing \<times> SctpAssociation \<times> 'w sys \<Rightarrow>
    SctpError turn \<times> (bytes \<times> u16 \<times> u32) echoing \<times> SctpAssociation \<times> 'w sys" where
  "assoc_echo_turn K = echo_turn (recv_turn K) (assoc_echo_send K) (\<lambda>(data, info). Some (data, stream info, ppid info))"

fun data_match :: "RecvResult \<Rightarrow> (bytes \<times> u16 \<times> u32) option" where
  "data_match (Data data info) = Some (data, stream info, ppid info)"
| "data_match (RecvNotification n) = None"

lemma assoc_echo_turn_eq: "assoc_echo_turn K = echo_turn (recv_msg_turn K) (assoc_echo_send K) data_match"
proof
  fix x :: "(bytes \<times> u16 \<times> u32) echoing \<times> SctpAssociation \<times> 'a sys"
  obtain p as where x: "x = (p, as)" by (cases x)
  obtain t as' where t: "recv_msg_turn K as = (t, as')" by (metis surj_pair)
  show "assoc_echo_turn K x = echo_turn (recv_msg_turn K) (assoc_echo_send K) data_match x"
  proof (cases p)
    case Receiving
    with t show ?thesis
      by (auto simp: x assoc_echo_turn_def recv_turn_def split: turn.splits sum.splits RecvResult.splits)
  qed (simp add: x assoc_echo_turn_def)
qed

fun assoc_echo :: "endian \<Rightarrow> call \<Rightarrow> bytes \<times> u16 \<times> u32" where
  "assoc_echo e (Call_sendmsg fd data pp flags sid ttl ctx ret) = (data, sid, from_be e 4 pp)"
| "assoc_echo e _ = ([], 0, 0)"

lemma recv_msg_taken:
  assumes "recv_msg_turn K (a, s) = (t, a', s')"
  shows "filter taken (trace s') = filter taken (trace s)"
proof -
  obtain rd s1 where p: "poll_ready K (inner a) READABLE s = (rd, s1)" by fastforce
  obtain st r s2 where st: "recv_step K (inner a) False (recv_state a) s1 = (st, r, s2)" by (metis surj_pair)
  from assms p st poll_ready_taken [OF p] recv_step_taken [OF st] show ?thesis
    by (auto simp: recv_msg_turn_def Let_def clear_ready_def split: readiness.splits option.splits Step.splits if_splits)
qed

interpretation assoc_echoing: echo_service "recv_msg_turn K" "turn_chunks K" recv_acc "recv_inv K"
  "push_input (target_endian K)" step_result "assoc_echo_send K" data_match accepted_by "assoc_echo (target_endian K)" for K
proof
  fix as as' :: "SctpAssociation \<times> 'a sys" and m :: "bytes \<times> u16 \<times> u32"
  obtain a s where as: "as = (a, s)" by (cases as)
  obtain a' s' where as': "as' = (a', s')" by (cases as')
  obtain data sid pp where m: "m = (data, sid, pp)" by (cases m)
  show "recv_msg_turn K as = (t, as') \<Longrightarrow> accepted_by as' = accepted_by as" for t
    using recv_msg_taken by (auto simp: as as' accepted_by_def)
  show "assoc_echo_send K m as = (u, as') \<Longrightarrow> recv_acc as' = recv_acc as \<and> (recv_inv K as \<longrightarrow> recv_inv K as')" for u
    using assoc_send.handle_kept [of K data sid pp default_SendOptions as]
    by (auto simp: assoc_echo_send_def m as as' recv_acc_def recv_inv_def)
  show "assoc_echo_send K m as = (Again, as') \<Longrightarrow> accepted_by as' = accepted_by as"
    using assoc_send.again_keeps [of K data sid pp default_SendOptions as as'] by (simp add: assoc_echo_send_def m)
  show "assoc_echo_send K m as = (Return (Inl e), as') \<Longrightarrow> accepted_by as' = accepted_by as" for e
    using assoc_send.error_keeps [of K data sid pp default_SendOptions as e as'] by (simp add: assoc_echo_send_def m)
  show "assoc_echo_send K m as = (Return (Inr n), as') \<Longrightarrow>
      \<exists>c. accepted_by as' = accepted_by as @ [c] \<and> assoc_echo (target_endian K) c = m" for n
    using assoc_send.sent_once [of K data sid pp default_SendOptions as n as']
    by (simp add: assoc_echo_send_def m sendmsg_entry_def from_be_to_be)
qed

lemma assoc_echo_exact:
  assumes "recvmsg_ok K" and "reassembly_inv (recv_state a)"
    and "session (assoc_echo_turn K) (echo_chunks (turn_chunks K)) n (Receiving, a, s) = (ts, cs, p, a', s')" and "set ts \<subseteq> {Again}"
  shows "map (assoc_echo (target_endian K)) (filter taken (trace s')) @ pending p
    = map (assoc_echo (target_endian K)) (filter taken (trace s))
      @ List.map_filter data_match (List.map_filter step_result
          (fst (feed (push_input (target_endian K)) (buf (recv_state a)) cs)))"
  using assoc_echoing.echoes [of K "(a, s)" n Receiving ts cs p "(a', s')"] assms
  by (simp add: assoc_echo_turn_eq recv_inv_def recv_acc_def accepted_by_def)

section \<open>Property\<close>

text \<open>What is to be sent back for an outcome of the accumulator: a complete message with a sender.\<close>

fun step_echo :: "Step \<Rightarrow> (i32 \<times> bytes \<times> u16 \<times> u32) option" where
  "step_echo (Complete data info (Some peer)) = Some (assoc_id info, data, stream info, ppid info)"
| "step_echo _ = None"

lemma many_echo_match_steps:
  "List.map_filter many_echo_match (List.map_filter server_step_result xs) = List.map_filter step_echo xs"
proof (induction xs)
  case (Cons x xs)
  then show ?case by (cases x rule: step_echo.cases) (simp_all add: List.map_filter_simps)
qed (simp add: List.map_filter_simps)

text \<open>A run of the service on one message.\<close>

lemma many_echo_sample:
  "\<exists>v' s'. session (many_echo_turn addressed_kernel) (echo_chunks (server_chunks addressed_kernel)) 2
      (Receiving, sample_server, sample_sys [([187, 188], MSG_EOR, sample_sinfo)] 1)
      = ([Again, Again], [([187, 188], MSG_EOR, sample_sinfo, Some (V4 2130706433 38412))], Receiving, v', s')
    \<and> filter taken (trace s') = [Call_send 3 [187, 188] (server_sinfo Little 42 7 18 default_SendOptions) 0 2]"
proof -
  let ?K = addressed_kernel and ?s = "sample_sys [([187, 188], MSG_EOR, sample_sinfo)] 1" and ?r = "sv_recv_state sample_server"
  let ?c = "([187, 188], MSG_EOR, sample_sinfo, Some (V4 2130706433 38412)) :: chunk"
  have fd: "sv_inner sample_server = 3" and inv: "reassembly_inv ?r" and b: "buf ?r = []"
    by (simp_all add: sample_server_def reassembly_inv_default) (simp add: default_Reassembly_def)
  have del: "delivers ?K True 3 (kern ?s) [?c]"
    by (simp add: sample_sys_def sample_out_def addressed_calls RECV_WINDOW_def neg_def answer_chunk_def addressed_sender)
  let ?d = "Complete [187, 188] (info_of Little sample_sinfo) (Some (V4 2130706433 38412))"
  have push: "push_input Little [] ?c = (?d, [])"
    by (simp add: push_chunk_def info_of_def MSG_EOR_def MSG_NOTIFICATION_def)
  obtain s1 r s2 where t1: "poll_ready ?K 3 READABLE ?s = (Ready, s1)" "recv_step ?K 3 True ?r s1 = (Some ?d, r, s2)"
    using delivers_step [OF addressed_recvmsg_ok inv del] push b by (auto simp: addressed_calls simp del: push_input.simps)
  have room: "room (kern s2) = 1"
    using recv_step_sys [of ?K 3 True ?r s1] t1
    by (simp add: poll_ready_sys after_recv_def addressed_calls sample_sys_def RECV_WINDOW_def) auto
  let ?v = "sample_server\<lparr>sv_recv_state := r\<rparr>" and ?m = "(42, [187, 188], 7, 18) :: i32 \<times> bytes \<times> u16 \<times> u32"
  have m: "many_echo_match (ServerData [187, 188] (info_of Little sample_sinfo) (V4 2130706433 38412)) = Some ?m"
    by (simp add: info_of_def sample_sinfo_def default_SctpSndRcvInfo_def from_be_to_be)
  have e1: "many_echo_turn ?K (Receiving, sample_server, ?s) = (Again, Echoing ?m, ?v, s2)"
    using t1 m by (simp add: many_echo_turn_def server_recv_turn_def fd del: many_echo_match.simps)
  have "k_send ?K = k_send sample_kernel" by (simp add: addressed_kernel_def)
  then obtain s3 where sd: "many_echo_send ?K ?m (?v, s2) = (Return (Inr 2), ?v, s3)"
    using room by (simp add: many_echo_send_def server_send_with_turn_def fd poll_ready_def syscall_def addressed_calls sample_defs neg_def)
  then have e2: "many_echo_turn ?K (Echoing ?m, ?v, s2) = (Again, Receiving, ?v, s3)"
    by (simp add: many_echo_turn_def)
  have cs: "server_chunks ?K (sample_server, ?s) = [?c]"
    using del by (simp add: server_chunks_def ready_chunks_def fd Let_def split: prod.splits)
  have run: "session (many_echo_turn ?K) (echo_chunks (server_chunks ?K)) 2 (Receiving, sample_server, ?s)
      = ([Again, Again], [?c], Receiving, ?v, s3)"
    by (simp add: numeral_2_eq_2 e1 e2 cs del: One_nat_def)
  have "filter taken (trace s2) = []"
    using poll_ready_taken [OF t1(1)] recv_step_taken [OF t1(2)] by (simp add: sample_sys_def)
  then have "filter taken (trace s3) = [Call_send 3 [187, 188] (server_sinfo Little 42 7 18 default_SendOptions) 0 2]"
    using server_send.sent_once [OF sd [unfolded many_echo_send_def prod.case]]
    by (simp add: server_accepted_def send_entry_def fd addressed_calls)
  with run show ?thesis by blast
qed

text \<open>
  C4: the one-to-many echo service sends every message back once. While it runs, whatever parts and
  notifications the kernel delivers and however often the service waits, what it has sent, in order, is
  each complete message it was delivered, whole, on its own association and stream and with its protocol
  identifier, but for the last one while that send still waits.
\<close>

theorem many_echo_exact:
  assumes "recvmsg_ok K" and "reassembly_inv (sv_recv_state v)"
    and "session (many_echo_turn K) (echo_chunks (server_chunks K)) n (Receiving, v, s) = (ts, cs, p, v', s')"
    and "set ts \<subseteq> {Again}"
  shows "map (server_echo (target_endian K)) (filter taken (trace s')) @ pending p
    = map (server_echo (target_endian K)) (filter taken (trace s))
      @ List.map_filter step_echo (fst (feed (push_input (target_endian K)) (buf (sv_recv_state v)) cs))"
  using many_echo.echoes [of K "(v, s)" n Receiving ts cs p "(v', s')"] assms
  by (simp add: many_echo_turn_def server_inv_def server_acc_def server_accepted_def many_echo_match_steps)

theorem many_echo_exact_witness:
  "\<exists>ts cs v' s'. session (many_echo_turn addressed_kernel) (echo_chunks (server_chunks addressed_kernel)) 2
      (Receiving, sample_server, sample_sys [([187, 188], MSG_EOR, sample_sinfo)] 1) = (ts, cs, Receiving, v', s')
    \<and> map (server_echo Little) (filter taken (trace s')) = [(42, [187, 188], 7, 18)]"
proof -
  let ?K = addressed_kernel and ?c = "([187, 188], MSG_EOR, sample_sinfo, Some (V4 2130706433 38412)) :: chunk"
  have inv: "reassembly_inv (sv_recv_state sample_server)" and b: "buf (sv_recv_state sample_server) = []"
    by (simp_all add: sample_server_def reassembly_inv_default) (simp add: default_Reassembly_def)
  obtain v' s' where run: "session (many_echo_turn ?K) (echo_chunks (server_chunks ?K)) 2
      (Receiving, sample_server, sample_sys [([187, 188], MSG_EOR, sample_sinfo)] 1) = ([Again, Again], [?c], Receiving, v', s')"
    using many_echo_sample by blast
  have "push_input Little [] ?c = (Complete [187, 188] (info_of Little sample_sinfo) (Some (V4 2130706433 38412)), [])"
    by (simp add: push_chunk_def info_of_def MSG_EOR_def MSG_NOTIFICATION_def)
  then have "List.map_filter step_echo (fst (feed (push_input Little) [] [?c])) = [(42, [187, 188], 7, 18)]"
    by (simp add: feed_one List.map_filter_simps info_of_def sample_sinfo_def default_SctpSndRcvInfo_def from_be_to_be
        del: feed.simps(2) push_input.simps)
  with many_echo_exact [OF addressed_recvmsg_ok inv run] b
  have "map (server_echo Little) (filter taken (trace s')) = [(42, [187, 188], 7, 18)]"
    by (simp add: addressed_calls sample_sys_def)
  then show ?thesis by (intro exI conjI) (rule run)
qed

end
