(* ===== verification/Conversation.thy ===== *)
theory Conversation
  imports Channel Echo
begin

text \<open>
  A client and the one-to-many echo service, with the network between them: the association's send, the
  server's receive, the service, the server's send and the association's receive, one after the other.
\<close>

section \<open>What the network promises of a reply\<close>

text \<open>As \<open>carried\<close>, for a message that a server has handed over.\<close>

fun carried_reply :: "endian \<Rightarrow> endian \<Rightarrow> call \<Rightarrow> chunk list \<Rightarrow> bool" where
  "carried_reply e1 e2 (Call_send fd data info flags ret) cs \<longleftrightarrow>
     is_record is_last_chunk (filter is_data_chunk cs) \<and> is_data_chunk (last cs)
     \<and> concat (map fst (filter is_data_chunk cs)) = data
     \<and> (case last cs of (d, fl, sinfo, addr) \<Rightarrow> sinfo_stream sinfo = sinfo_stream info
          \<and> ne_bytes e2 4 (sinfo_ppid sinfo) = ne_bytes e1 4 (sinfo_ppid info))"
| "carried_reply e1 e2 _ cs \<longleftrightarrow> False"

lemma carried_reply_makes:
  assumes "carried_reply e1 e2 c cs"
  shows "makes e2 cs (snd (server_echo e1 c))"
proof -
  obtain fd data info flags ret where c: "c = Call_send fd data info flags ret"
    using assms by (cases "(e1, e2, c, cs)" rule: carried_reply.cases) auto
  obtain d fl sinfo addr where l: "last cs = (d, fl, sinfo, addr)" by (cases "last cs")
  have "sinfo_ppid info = to_be e1 4 (from_be e1 4 (sinfo_ppid info))" by (simp add: to_be_from_be)
  then have "ppid (info_of e2 sinfo) = from_be e1 4 (sinfo_ppid info)"
    using assms l ppid_from_wire [of e2 sinfo e1 "from_be e1 4 (sinfo_ppid info)"] by (simp add: c info_of_def)
  with assms l show ?thesis by (simp add: c info_of_def)
qed

section \<open>What the service makes of a message\<close>

fun chunk_addr :: "chunk \<Rightarrow> SocketAddr option" where
  "chunk_addr (d, flags, sinfo, addr) = addr"

fun chunk_assoc :: "chunk \<Rightarrow> i32" where
  "chunk_assoc (d, flags, sinfo, addr) = sinfo_assoc_id sinfo"

definition echo_of :: "bytes \<times> RecvInfo \<times> SocketAddr option \<Rightarrow> (i32 \<times> bytes \<times> u16 \<times> u32) option" where
  "echo_of = (\<lambda>(d, info, addr). if addr = None then None else Some (assoc_id info, d, stream info, ppid info))"

lemma step_echo_messages: "List.map_filter step_echo xs = List.map_filter echo_of (List.map_filter step_message xs)"
proof (induction xs)
  case (Cons x xs)
  then show ?case by (cases x rule: step_echo.cases) (simp_all add: List.map_filter_simps echo_of_def)
qed (simp add: List.map_filter_simps)

lemma makes_echo:
  assumes "makes e cs m" and "chunk_addr (last cs) \<noteq> None"
  shows "List.map_filter step_echo (fst (feed (push_input e) [] cs)) = [(chunk_assoc (last cs), m)]
    \<and> snd (feed (push_input e) [] cs) = []"
proof -
  obtain data sid pp where m: "m = (data, sid, pp)" by (cases m)
  obtain d fl sinfo addr where l: "last cs = (d, fl, sinfo, addr)" by (cases "last cs")
  let ?g = "filter is_data_chunk cs"
  have g: "is_record is_last_chunk ?g" "is_data_chunk (last cs)" using assms(1) by (simp_all add: m)
  then have "cs \<noteq> []" by (auto simp: is_record_def)
  then have "?g = filter is_data_chunk (butlast cs) @ [last cs]"
    using g(2) by (metis append_butlast_last_id filter.simps(1,2) filter_append)
  then have "last ?g = last cs" by simp
  with reassembly.feed_records [of cs "[?g]" "[]" e] g(1) assms l show ?thesis
    by (auto simp: m step_echo_messages echo_of_def List.map_filter_simps info_of_def)
qed

lemma conversation_echoes:
  "list_all2 (makes e) css ms \<Longrightarrow> \<forall>cs \<in> set css. chunk_addr (last cs) \<noteq> None \<Longrightarrow>
   List.map_filter step_echo (fst (feed (push_input e) [] (concat css))) = zip (map (chunk_assoc \<circ> last) css) ms"
proof (induction css ms rule: list_all2_induct)
  case (Cons cs css m ms)
  with makes_echo [of e cs m] show ?case by (auto simp: feed_append map_filter_append split: prod.splits)
qed (simp add: List.map_filter_simps)

section \<open>Property\<close>

text \<open>
  C3: a conversation with the echo service. A client sends any sequence of messages, of which some sends may
  fail or be dropped; the network carries the others to a one-to-many server, each in any parts and with any
  notifications between them; the service of \<open>many_echo.rs\<close> runs until it has been delivered all of it and
  waits again; and the network carries its replies back. Then the client's receives return exactly the
  messages of the sends that returned a length, in order, each whole, on its stream and with its protocol
  identifier, on hosts of any two byte orders, and the service has addressed each reply to the association
  its message came from.
\<close>

theorem echo_conversation:
  assumes "send_each K1 ms (a, s) = (rs, a', s')"
    and "filter taken (trace s') = filter taken (trace s) @ new"
    and "list_all2 (carried (target_endian K1) (target_endian K2)) new css"
    and "\<forall>cs \<in> set css. chunk_addr (last cs) \<noteq> None"
    and "recvmsg_ok K2" and "reassembly_inv (sv_recv_state v)" and "buf (sv_recv_state v) = []"
    and "session (many_echo_turn K2) (echo_chunks (server_chunks K2)) n (Receiving, v, r) = (ts, concat css, Receiving, v', r')"
    and "set ts \<subseteq> {Again}"
    and "filter taken (trace r') = filter taken (trace r) @ replies"
    and "list_all2 (carried_reply (target_endian K2) (target_endian K1)) replies dss"
    and "recvmsg_ok K1" and "reassembly_inv (recv_state a)" and "buf (recv_state a) = []"
    and "delivers K1 False (inner a) (kern q) (concat dss)"
  shows "\<exists>qs b q'. recv_each K1 (map length dss) (a', q) = (qs, b, q')
    \<and> map got_message qs = map Some (queued ms rs)
    \<and> map (fst \<circ> server_echo (target_endian K2)) replies = map (chunk_assoc \<circ> last) css"
proof -
  let ?e1 = "target_endian K1" and ?e2 = "target_endian K2"
  have h: "a' = a" "list_all2 (hands_over ?e1) new (queued ms rs)" using send_each_queued [OF assms(1)] assms(2) by auto
  have css: "list_all2 (makes ?e2) css (queued ms rs)"
    by (rule carried_all_makes [OF assms(3) h(2)])
  have "map (server_echo ?e2) replies = List.map_filter step_echo (fst (feed (push_input ?e2) [] (concat css)))"
    using many_echo.echoes [of K2 "(v, r)" n Receiving ts "concat css" Receiving "(v', r')"] assms(5-10)
    by (simp add: many_echo_turn_def server_inv_def server_acc_def server_accepted_def many_echo_match_steps)
  then have z: "map (server_echo ?e2) replies = zip (map (chunk_assoc \<circ> last) css) (queued ms rs)"
    using conversation_echoes [OF css assms(4)] by simp
  have len: "length css = length (queued ms rs)" using css by (rule list_all2_lengthD)
  have "list_all2 (makes ?e1) dss (map (snd \<circ> server_echo ?e2) replies)"
    using assms(11) by (simp add: list_all2_conv_all_nth carried_reply_makes)
  moreover have "map (snd \<circ> server_echo ?e2) replies = queued ms rs"
    using arg_cong [OF z, of "map snd"] len by simp
  moreover have "map (fst \<circ> server_echo ?e2) replies = map (chunk_assoc \<circ> last) css"
    using arg_cong [OF z, of "map fst"] len by simp
  ultimately show ?thesis
    using recv_each_makes [OF assms(12-14), of dss "queued ms rs" q "[]"] assms(15) h(1) by auto
qed

theorem echo_conversation_witness:
  "\<exists>qs b q'. recv_each sample_kernel [1] (new_association 3, sample_sys [([187, 188], MSG_EOR, sample_sinfo)] 0) = (qs, b, q')
    \<and> map got_message qs = [Some ([187, 188], 7, 18)]"
proof -
  let ?K = sample_kernel and ?a = "new_association 3" and ?q = "sample_sys [([187, 188], MSG_EOR, sample_sinfo)] 0"
  let ?ms = "[(1, [187, 188], 7, 18, default_SendOptions)] :: (nat \<times> bytes \<times> u16 \<times> u32 \<times> SendOptions) list"
  let ?c = "([187, 188], MSG_EOR, sample_sinfo, Some (V4 2130706433 38412)) :: chunk"
    and ?d = "([187, 188], MSG_EOR, sample_sinfo, None) :: chunk"
  obtain s' where s: "send_each ?K ?ms (?a, sample_sys [] 1) = ([Return (Inr 2)], ?a, s')"
    and t: "filter taken (trace s') = filter taken (trace (sample_sys [] 1)) @ [Call_sendmsg 3 [187, 188] (to_be Little 4 18) 0 7 0 0 2]"
    by (simp add: send_with_def send_with_turn_def poll_ready_def syscall_def sample_defs new_association_def neg_def
        opts_sinfo_flags_def default_SendOptions_def)
  have e: "target_endian ?K = Little" "target_endian addressed_kernel = Little" by (simp_all add: addressed_calls)
  have si: "sinfo_stream sample_sinfo = 7" "sinfo_ppid sample_sinfo = to_be Little 4 18"
    by (simp_all add: sample_sinfo_def default_SctpSndRcvInfo_def)
  have c: "list_all2 (carried (target_endian ?K) (target_endian addressed_kernel))
      [Call_sendmsg 3 [187, 188] (to_be Little 4 18) 0 7 0 0 2] [[?c]]"
    by (simp add: e si is_record_def MSG_EOR_def MSG_NOTIFICATION_def)
  have ad: "\<forall>cs \<in> set [[?c]]. chunk_addr (last cs) \<noteq> None" by simp
  have iv: "reassembly_inv (sv_recv_state sample_server)" "buf (sv_recv_state sample_server) = []"
    by (simp_all add: sample_server_def reassembly_inv_default) (simp add: default_Reassembly_def)
  let ?reply = "Call_send 3 [187, 188] (server_sinfo Little 42 7 18 default_SendOptions) 0 2"
  obtain v' r' where run: "session (many_echo_turn addressed_kernel) (echo_chunks (server_chunks addressed_kernel)) 2
      (Receiving, sample_server, sample_sys [([187, 188], MSG_EOR, sample_sinfo)] 1) = ([Again, Again], concat [[?c]], Receiving, v', r')"
    and rt: "filter taken (trace r') = filter taken (trace (sample_sys [([187, 188], MSG_EOR, sample_sinfo)] 1)) @ [?reply]"
    using many_echo_sample by (auto simp: sample_sys_def)
  have ts: "set [Again, Again] \<subseteq> {Again :: SctpError turn}" by simp
  have d: "list_all2 (carried_reply (target_endian addressed_kernel) (target_endian ?K)) [?reply] [[?d]]"
    by (simp add: e si is_record_def MSG_EOR_def MSG_NOTIFICATION_def server_sinfo_def)
  have ia: "reassembly_inv (recv_state ?a)" "buf (recv_state ?a) = []"
    by (simp_all add: new_association_def reassembly_inv_default) (simp add: default_Reassembly_def)
  have del: "delivers ?K False (inner ?a) (kern ?q) (concat [[?d]])"
    by (simp add: new_association_def sample_defs RECV_WINDOW_def neg_def answer_chunk_def sender_of_def)
  have "queued ?ms [Return (Inr 2)] = [([187, 188], 7, 18)]" by (simp add: queued_def List.map_filter_simps)
  with echo_conversation [OF s t c ad addressed_recvmsg_ok iv run ts rt d sample_recvmsg_ok ia del] show ?thesis by auto
qed

end
