(* ===== verification/Leak_Check.thy ===== *)
theory Leak_Check
  imports Interleave Sctp_Prelude
begin

text \<open>
  The counting allocator of \<open>examples/leak_check.rs\<close>: every call goes to the system's allocator and then
  adds to a counter that the threads share. Between the two another thread can come, so a call is two
  actions, and the calls of all threads interleave (theory \<open>Interleave\<close>). The system's allocator is a
  parameter.
\<close>

section \<open>The allocator\<close>

type_synonym i64 = "64 word"
type_synonym ptr = "64 word"  \<comment> \<open>0 is the null pointer\<close>

record Layout =
  lay_size :: usize
  lay_align :: usize

record 'h system_alloc =
  System_alloc :: "Layout \<Rightarrow> 'h \<Rightarrow> ptr \<times> 'h"
  System_dealloc :: "ptr \<Rightarrow> Layout \<Rightarrow> 'h \<Rightarrow> 'h"
  System_alloc_zeroed :: "Layout \<Rightarrow> 'h \<Rightarrow> ptr \<times> 'h"
  System_realloc :: "ptr \<Rightarrow> Layout \<Rightarrow> usize \<Rightarrow> 'h \<Rightarrow> ptr \<times> 'h"

datatype request = Alloc Layout | Dealloc ptr Layout | AllocZeroed Layout | Realloc ptr Layout usize

fun system_call :: "'h system_alloc \<Rightarrow> request \<Rightarrow> 'h \<Rightarrow> ptr \<times> 'h" where
  "system_call S (Alloc l) h = System_alloc S l h"
| "system_call S (Dealloc p l) h = (0, System_dealloc S p l h)"
| "system_call S (AllocZeroed l) h = System_alloc_zeroed S l h"
| "system_call S (Realloc p l new) h = System_realloc S p l new h"

text \<open>What a call adds to \<open>LIVE\<close> once the system has answered \<open>p\<close>.\<close>

fun counted :: "request \<Rightarrow> ptr \<Rightarrow> i64" where
  "counted (Alloc l) p = (if p \<noteq> 0 then lay_size l else 0)"
| "counted (Dealloc q l) p = - lay_size l"
| "counted (AllocZeroed l) p = (if p \<noteq> 0 then lay_size l else 0)"
| "counted (Realloc q l new) p = (if p \<noteq> 0 then new - lay_size l else 0)"

text \<open>A call: before the system's allocator, before the counter, done. The state is the counter and the system's heap.\<close>

datatype alloc_task = Called request | Counting request ptr | Finished request ptr

fun alloc_step :: "'h system_alloc \<Rightarrow> alloc_task \<Rightarrow> i64 \<times> 'h \<Rightarrow> alloc_task \<times> i64 \<times> 'h" where
  "alloc_step S (Called r) (live, h) = (case system_call S r h of (p, h') \<Rightarrow> (Counting r p, live, h'))"
| "alloc_step S (Counting r p) (live, h) = (Finished r p, live + counted r p, h)"
| "alloc_step S (Finished r p) (live, h) = (Finished r p, live, h)"

text \<open>\<open>report\<close> and the verdict of \<open>main\<close>: whether the process exits with success.\<close>

definition leak_report :: "i64 \<Rightarrow> i64 \<Rightarrow> i64" where
  "leak_report live base = live - base"

definition BUDGET :: i64 where
  "BUDGET = 256 * 1024"

definition leak_verdict :: "i64 \<Rightarrow> i64 \<Rightarrow> bool" where
  "leak_verdict echo_growth churn_growth =
     (let ok = True;
          ok = (if sint echo_growth > sint BUDGET then False else ok);
          ok = (if sint churn_growth > sint BUDGET then False else ok)
      in ok)"

section \<open>The blocks\<close>

text \<open>The blocks that a call has obtained and given up, with their sizes.\<close>

type_synonym blocks = "(ptr \<times> usize) multiset"

fun obtained :: "alloc_task \<Rightarrow> blocks" where
  "obtained (Finished (Alloc l) p) = (if p \<noteq> 0 then {#(p, lay_size l)#} else {#})"
| "obtained (Finished (AllocZeroed l) p) = (if p \<noteq> 0 then {#(p, lay_size l)#} else {#})"
| "obtained (Finished (Realloc q l new) p) = (if p \<noteq> 0 then {#(p, new)#} else {#})"
| "obtained _ = {#}"

fun surrendered :: "alloc_task \<Rightarrow> blocks" where
  "surrendered (Finished (Dealloc q l) p) = {#(q, lay_size l)#}"
| "surrendered (Finished (Realloc q l new) p) = (if p \<noteq> 0 then {#(q, lay_size l)#} else {#})"
| "surrendered _ = {#}"

definition all_obtained :: "alloc_task list \<Rightarrow> blocks" where
  "all_obtained ts = (\<Sum>t \<leftarrow> ts. obtained t)"

definition all_surrendered :: "alloc_task list \<Rightarrow> blocks" where
  "all_surrendered ts = (\<Sum>t \<leftarrow> ts. surrendered t)"

definition num_bytes :: "blocks \<Rightarrow> nat" where
  "num_bytes M = (\<Sum>(p, n) \<in># M. unat n)"

lemma num_bytes_simps [simp]:
  "num_bytes {#} = 0" "num_bytes {#(p, n)#} = unat n" "num_bytes (M + N) = num_bytes M + num_bytes N"
  by (simp_all add: num_bytes_def)

fun task_credit :: "alloc_task \<Rightarrow> i64" where
  "task_credit (Finished r p) = counted r p"
| "task_credit _ = 0"

lemma task_credit_blocks: "task_credit t + word_of_nat (num_bytes (surrendered t)) = word_of_nat (num_bytes (obtained t))"
  by (cases t rule: obtained.cases) simp_all

lemma sum_credit_blocks:
  "(\<Sum>t \<leftarrow> ts. task_credit t) + word_of_nat (num_bytes (all_surrendered ts)) = word_of_nat (num_bytes (all_obtained ts))"
proof (induction ts)
  case (Cons t ts)
  have "(\<Sum>t \<leftarrow> t # ts. task_credit t) + word_of_nat (num_bytes (all_surrendered (t # ts)))
    = (task_credit t + word_of_nat (num_bytes (surrendered t)))
      + ((\<Sum>t \<leftarrow> ts. task_credit t) + word_of_nat (num_bytes (all_surrendered ts)))"
    by (simp add: all_surrendered_def)
  then show ?case by (simp only: task_credit_blocks Cons) (simp add: all_obtained_def)
qed (simp add: all_surrendered_def all_obtained_def)

section \<open>The counter\<close>

fun is_called :: "alloc_task \<Rightarrow> bool" where
  "is_called (Called r) \<longleftrightarrow> True"
| "is_called _ \<longleftrightarrow> False"

text \<open>Calls of any number of threads; a call cannot be dropped, and nothing else touches the counter.\<close>

abbreviation allocations :: "'h system_alloc \<Rightarrow> i64 \<times> 'h \<Rightarrow> alloc_task list \<Rightarrow> i64 \<times> 'h \<Rightarrow> unit list \<Rightarrow> bool" where
  "allocations S \<equiv> interleaves (alloc_step S) (\<lambda>_ _. []) is_called (\<lambda>_. False) (Called (Alloc \<lparr>lay_size = 0, lay_align = 1\<rparr>))
     (\<lambda>s s'. fst s' = fst s)"

interpretation counter: shared_socket "alloc_step S" "\<lambda>_ _. [] :: unit list" is_called "\<lambda>_. False"
  "Called (Alloc \<lparr>lay_size = 0, lay_align = 1\<rparr>)" "\<lambda>s s'. fst s' = fst s" "\<lambda>_ _. True" "\<lambda>s _. fst s" task_credit "\<lambda>_. True" for S
proof
  fix s s' :: "i64 \<times> 'a" and t t' and cs :: "unit list"
  assume "alloc_step S t s = (t', s')"
  then show "True \<and> True \<and> fst s' + task_credit t = fst s + task_credit t'"
    by (cases s; cases t) (auto split: prod.splits)
qed (auto elim: is_called.elims)

text \<open>A difference of two numbers of bytes below \<open>2 ^ 63\<close> is read back from 64 bits.\<close>

lemma sint_difference:
  assumes "a < 2 ^ 63" and "b < 2 ^ 63"
  shows "sint (word_of_nat a - word_of_nat b :: i64) = int a - int b"
proof -
  have w: "(word_of_nat a - word_of_nat b :: i64) = word_of_int (int a - int b)" by (simp add: of_nat_diff)
  have r: "- (2 ^ 63) \<le> int a - int b" "int a - int b < 2 ^ 63" using assms by simp_all
  have "sint (word_of_int (int a - int b) :: i64) = signed_take_bit 63 (int a - int b)"
    by (simp only: signed_of_int) simp
  also have "\<dots> = int a - int b" using r by (simp only: signed_take_bit_int_eq_self)
  finally show ?thesis by (simp only: w)
qed

section \<open>Property\<close>

text \<open>
  C24: the leak check measures what it says. However the calls of all threads to the allocator interleave,
  the growth that it reports is at every moment the number of bytes in the blocks that the calls done by
  then have left allocated less the number of bytes in those allocated when the base was taken, provided
  that every block given back was one of them or obtained since; a call that fails counts nothing, and a
  call in progress not yet. The verdict compares exactly that with the budget.
\<close>

theorem leak_check_exact:
  assumes "allocations S (base, h0) ts (live, h) cs"
    and "before + all_obtained ts = after + all_surrendered ts"
    and "num_bytes before < 2 ^ 63" and "num_bytes after < 2 ^ 63"
  shows "sint (leak_report live base) = int (num_bytes after) - int (num_bytes before)
    \<and> (leak_verdict (leak_report live base) other \<longleftrightarrow>
        int (num_bytes after) - int (num_bytes before) \<le> 262144 \<and> sint other \<le> 262144)"
proof -
  let ?g = "\<Sum>t \<leftarrow> ts. task_credit t"
  have l: "live = base + ?g" using counter.ledger [OF assms(1)] by simp
  have "num_bytes before + num_bytes (all_obtained ts) = num_bytes after + num_bytes (all_surrendered ts)"
    using assms(2) by (metis num_bytes_simps(3))
  then have "word_of_nat (num_bytes before) + (word_of_nat (num_bytes (all_obtained ts)) :: i64)
      = word_of_nat (num_bytes after) + word_of_nat (num_bytes (all_surrendered ts))"
    by (metis of_nat_add)
  then have "word_of_nat (num_bytes before) + ?g = (word_of_nat (num_bytes after) :: i64)"
    by (simp add: sum_credit_blocks [symmetric])
  then have "leak_report live base = word_of_nat (num_bytes after) - word_of_nat (num_bytes before)"
    by (simp add: leak_report_def l algebra_simps)
  with sint_difference [OF assms(4,3)] show ?thesis
    by (auto simp: leak_verdict_def BUDGET_def)
qed

text \<open>A system that hands out one block after the other.\<close>

definition bump_alloc :: "ptr system_alloc" where
  "bump_alloc = \<lparr>System_alloc = (\<lambda>l h. (h, h + lay_size l)), System_dealloc = (\<lambda>p l h. h),
     System_alloc_zeroed = (\<lambda>l h. (h, h + lay_size l)), System_realloc = (\<lambda>p l new h. (h, h + new))\<rparr>"

theorem leak_check_exact_witness:
  "\<exists>live h ts. allocations bump_alloc (0, 4096) ts (live, h) [] \<and> length ts = 2
    \<and> sint (leak_report live 0) = 36"
proof -
  let ?l = "\<lparr>lay_size = 100, lay_align = 8\<rparr>" and ?m = "\<lparr>lay_size = 64, lay_align = 8\<rparr>"
  let ?ts = "[Finished (Alloc ?l) 4096, Finished (Dealloc 64 ?m) 0]"
  have "allocations bump_alloc (0, 4096) ([] @ [Called (Alloc ?l)]) (0, 4096) []"
    by (rule interleaves.spawn [OF interleaves.start]) simp
  then have "allocations bump_alloc (0, 4096) (([] @ [Called (Alloc ?l)]) @ [Called (Dealloc 64 ?m)]) (0, 4096) []"
    by (rule interleaves.spawn) simp
  then have "allocations bump_alloc (0, 4096) [Called (Alloc ?l), Called (Dealloc 64 ?m)] (0, 4096) []" by simp
  from interleaves.act [OF this, of 0] have "allocations bump_alloc (0, 4096) [Counting (Alloc ?l) 4096, Called (Dealloc 64 ?m)] (0, 4196) []"
    by (simp add: bump_alloc_def)
  from interleaves.act [OF this, of 1] have "allocations bump_alloc (0, 4096) [Counting (Alloc ?l) 4096, Counting (Dealloc 64 ?m) 0] (0, 4196) []"
    by (simp add: bump_alloc_def)
  from interleaves.act [OF this, of 1] have "allocations bump_alloc (0, 4096) [Counting (Alloc ?l) 4096, Finished (Dealloc 64 ?m) 0] (- 64, 4196) []"
    by simp
  from interleaves.act [OF this, of 0] have r: "allocations bump_alloc (0, 4096) ?ts (36, 4196) []"
    by simp
  have e: "{#(64, 64)#} + all_obtained ?ts = {#(4096, 100)#} + all_surrendered ?ts"
    by (simp add: all_obtained_def all_surrendered_def)
  have "sint (leak_report 36 0) = int (num_bytes {#(4096, 100)#}) - int (num_bytes {#(64, 64)#})"
    using leak_check_exact [OF r e] by simp
  with r show ?thesis by (intro exI [of _ 36] exI [of _ 4196] exI [of _ ?ts]) simp
qed

end
