(* ===== verification/Clients.thy ===== *)
theory Clients
  imports Echo Leak_Check Drain "HOL-Library.Sublist"
begin

text \<open>
  The programs of \<open>examples/\<close> that connect and that accept: \<open>echo_client.rs\<close>, \<open>echo_server.rs\<close>, \<open>perf.rs\<close>
  and the traffic of \<open>leak_check.rs\<close>. Each is a sequence of awaits on associations that it owns, each of
  which is polled at most \<open>n\<close> times; what the other tasks and the far end do meanwhile is part of the world
  that the kernel's answers come from. A program that returns or panics drops what it owns, one that still
  waits (\<open>Again\<close>) owns it still. The lines that are printed and the timing are not modelled.
\<close>

section \<open>Sequences of awaits\<close>

type_synonym ('e, 'a, 's) async = "'s \<Rightarrow> ('e + 'a) turn \<times> 's"

text \<open>\<open>let x = m.await?; f x\<close>\<close>

definition await_then :: "('e, 'a, 's) async \<Rightarrow> ('a \<Rightarrow> ('e, 'b, 's) async) \<Rightarrow> ('e, 'b, 's) async" where
  "await_then m f s = (case m s of
     (Return (Inr x), s') \<Rightarrow> f x s'
   | (Return (Inl e), s') \<Rightarrow> (Return (Inl e), s')
   | (Again, s') \<Rightarrow> (Again, s')
   | (Panicked, s') \<Rightarrow> (Panicked, s'))"

definition done_with :: "'a \<Rightarrow> ('e, 'a, 's) async" where
  "done_with x s = (Return (Inr x), s)"

text \<open>\<open>unwrap\<close>: an error is a panic.\<close>

definition unwrapped :: "('e, 'a, 's) async \<Rightarrow> ('f, 'a, 's) async" where
  "unwrapped m s = (case m s of
     (Return (Inr x), s') \<Rightarrow> (Return (Inr x), s')
   | (Return (Inl e), s') \<Rightarrow> (Panicked, s')
   | (Again, s') \<Rightarrow> (Again, s')
   | (Panicked, s') \<Rightarrow> (Panicked, s'))"

text \<open>\<open>ok()\<close>: an error is ignored.\<close>

definition ignored :: "('e, 'a, 's) async \<Rightarrow> ('f, unit, 's) async" where
  "ignored m s = (case m s of
     (Return r, s') \<Rightarrow> (Return (Inr ()), s')
   | (Again, s') \<Rightarrow> (Again, s')
   | (Panicked, s') \<Rightarrow> (Panicked, s'))"

text \<open>A call on the association that does not wait.\<close>

definition call_assoc :: "(SctpAssociation \<Rightarrow> ('e, 'a, 'w sys) prog) \<Rightarrow> ('e, 'a, SctpAssociation \<times> 'w sys) async" where
  "call_assoc f = (\<lambda>(a, s). case f a s of (r, s') \<Rightarrow> (Return r, a, s'))"

text \<open>\<open>for _ in 0..i\<close>\<close>

fun rounds :: "nat \<Rightarrow> ('e, unit, 's) async \<Rightarrow> ('e, unit, 's) async" where
  "rounds 0 m = done_with ()"
| "rounds (Suc i) m = await_then m (\<lambda>_. rounds i m)"

text \<open>
  A block that owns the association it begins with: the association is dropped when the block returns and when
  it panics.
\<close>

definition with_assoc :: "('w, 'x) kernel_scheme \<Rightarrow> ('e, SctpAssociation, 'w sys) async \<Rightarrow>
    ('e, 'a, SctpAssociation \<times> 'w sys) async \<Rightarrow> ('e, 'a, 'w sys) async" where
  "with_assoc K conn body = await_then conn (\<lambda>a s. case body (a, s) of
     (Again, a', s') \<Rightarrow> (Again, s')
   | (t, a', s') \<Rightarrow> (t, drop_association K a' s'))"

section \<open>The echo client\<close>

definition str_bytes :: "string \<Rightarrow> bytes" where
  "str_bytes s = map of_char s"

definition echo_client_config :: SctpConfig where
  "echo_client_config = cfg_nodelay (cfg_streams cfg_new 16 16) True"

text \<open>The result is what the client prints: the peer's addresses, then the metadata and the bytes of the echo.\<close>

definition echo_client :: "('w, 'x) kernel_scheme \<Rightarrow> nat \<Rightarrow> string option \<Rightarrow> string option \<Rightarrow>
    (SctpError, SocketAddr list \<times> RecvInfo \<times> bytes, 'w sys) async" where
  "echo_client K n arg1 arg2 s =
     (let addr = (case arg1 of Some x \<Rightarrow> x | None \<Rightarrow> ''127.0.0.1:38412'');
          msg = (case arg2 of Some x \<Rightarrow> x | None \<Rightarrow> ''hello sctp'')
      in case socket_addr_from_str addr of
        None \<Rightarrow> (Panicked, s)
      | Some a \<Rightarrow> with_assoc K (connect_with K n a echo_client_config)
          (await_then (call_assoc (peer_addrs K)) (\<lambda>peers.
           await_then (send K n (str_bytes msg) 0 M3UA) (\<lambda>_.
           await_then (recv K n) (\<lambda>(echo, info).
           await_then (call_assoc (shutdown K)) (\<lambda>_.
           done_with (peers, info, echo)))))) s)"

section \<open>The throughput driver\<close>

definition parse_or :: "usize \<Rightarrow> string option \<Rightarrow> usize" where
  "parse_or fallback env = (case env of None \<Rightarrow> fallback | Some s \<Rightarrow>
     (case usize_from_str s of None \<Rightarrow> fallback | Some n \<Rightarrow> n))"

definition perf_count :: "string option \<Rightarrow> usize" where
  "perf_count = parse_or 100000"

definition perf_size :: "string option \<Rightarrow> usize" where
  "perf_size = parse_or 128"

text \<open>\<open>bind\<close> on a free port of the loopback and \<open>local_addr\<close>, after which the listener is moved to a task.\<close>

definition loopback_start :: "('w, 'x) kernel_scheme \<Rightarrow> (SctpError, SctpListener \<times> SocketAddr, 'w sys) async" where
  "loopback_start K s = (case socket_addr_from_str ''127.0.0.1:0'' of
     None \<Rightarrow> (Panicked, s)
   | Some addr \<Rightarrow>
       (case listener_bind K addr s of
          (Inl e, s1) \<Rightarrow> (Return (Inl e), s1)
        | (Inr l, s1) \<Rightarrow>
            (case listener_local_addr K l s1 of
               (Inl e, s2) \<Rightarrow> (Return (Inl e), drop_listener K l s2)
             | (Inr bound, s2) \<Rightarrow> (Return (Inr (l, bound)), s2))))"

text \<open>A vector of more than \<open>isize::MAX\<close> bytes is a panic.\<close>

definition vec_of :: "u8 \<Rightarrow> usize \<Rightarrow> ('e, bytes, 's) async" where
  "vec_of b len s = (if unat len < 2 ^ 63 then (Return (Inr (replicate (unat len) b)), s) else (Panicked, s))"

definition perf_client :: "('w, 'x) kernel_scheme \<Rightarrow> nat \<Rightarrow> usize \<Rightarrow> usize \<Rightarrow> SocketAddr \<Rightarrow> (SctpError, unit, 'w sys) async" where
  "perf_client K n num len bound = with_assoc K (connect K n bound)
     (await_then (vec_of 0xAB len) (\<lambda>payload.
      rounds (unat num)
        (await_then (send K n payload 0 M3UA) (\<lambda>_.
         await_then (recv K n) (\<lambda>_. done_with ())))))"

section \<open>The traffic of the leak check\<close>

definition leak_exchange :: "('w, 'x) kernel_scheme \<Rightarrow> nat \<Rightarrow> bytes \<Rightarrow> (SctpError, unit, SctpAssociation \<times> 'w sys) async" where
  "leak_exchange K n payload =
     await_then (unwrapped (send K n payload 0 M3UA)) (\<lambda>_.
     await_then (unwrapped (recv K n)) (\<lambda>_. done_with ()))"

definition ECHO_ITERS :: nat where "ECHO_ITERS = 20000"
definition ECHO_CYCLES :: nat where "ECHO_CYCLES = 8"
definition CHURN_PER_CYCLE :: nat where "CHURN_PER_CYCLE = 50"
definition CHURN_CYCLES :: nat where "CHURN_CYCLES = 8"

text \<open>
  \<open>live\<close> is the counter of the allocator in a state of the world, \<open>nap\<close> what becomes of the world in
  a \<open>sleep\<close> of the given milliseconds.
\<close>

definition read_live :: "('w \<Rightarrow> i64) \<Rightarrow> ('e, i64, 'w sys) async" where
  "read_live live s = (Return (Inr (live (kern s))), s)"

definition sleep :: "(nat \<Rightarrow> 'w \<Rightarrow> 'w) \<Rightarrow> nat \<Rightarrow> ('e, unit, 'w sys) async" where
  "sleep nap ms s = (Return (Inr ()), s\<lparr>kern := nap ms (kern s)\<rparr>)"

definition leak_echo_phase :: "('w, 'x) kernel_scheme \<Rightarrow> nat \<Rightarrow> ('w \<Rightarrow> i64) \<Rightarrow> SocketAddr \<Rightarrow> (SctpError, i64, 'w sys) async" where
  "leak_echo_phase K n live bound = with_assoc K (unwrapped (connect K n bound))
     (let payload = replicate 128 0xCD in
      await_then (rounds ECHO_ITERS (leak_exchange K n payload)) (\<lambda>_.
      await_then (call_assoc (\<lambda>_ s. (Inr (live (kern s)), s))) (\<lambda>echo_base.
      await_then (rounds ECHO_CYCLES (rounds ECHO_ITERS (leak_exchange K n payload))) (\<lambda>_.
      call_assoc (\<lambda>_ s. (Inr (live (kern s) - echo_base), s))))))"

definition churn_round :: "('w, 'x) kernel_scheme \<Rightarrow> nat \<Rightarrow> SocketAddr \<Rightarrow> (SctpError, unit, 'w sys) async" where
  "churn_round K n bound = with_assoc K (unwrapped (connect K n bound))
     (await_then (leak_exchange K n (str_bytes ''x'')) (\<lambda>_. ignored (call_assoc (shutdown K))))"

definition leak_churn_phase :: "('w, 'x) kernel_scheme \<Rightarrow> nat \<Rightarrow> ('w \<Rightarrow> i64) \<Rightarrow> (nat \<Rightarrow> 'w \<Rightarrow> 'w) \<Rightarrow> SocketAddr \<Rightarrow>
    (SctpError, i64, 'w sys) async" where
  "leak_churn_phase K n live nap bound =
     await_then (rounds CHURN_PER_CYCLE (churn_round K n bound)) (\<lambda>_.
     await_then (sleep nap 200) (\<lambda>_.
     await_then (read_live live) (\<lambda>churn_base.
     await_then (rounds CHURN_CYCLES
       (await_then (rounds CHURN_PER_CYCLE (churn_round K n bound)) (\<lambda>_. sleep nap 100))) (\<lambda>_.
     await_then (read_live live) (\<lambda>now. done_with (now - churn_base))))))"

definition leak_main :: "('w, 'x) kernel_scheme \<Rightarrow> nat \<Rightarrow> ('w \<Rightarrow> i64) \<Rightarrow> (nat \<Rightarrow> 'w \<Rightarrow> 'w) \<Rightarrow> (SctpError, SctpListener \<times> bool, 'w sys) async" where
  "leak_main K n live nap =
     await_then (unwrapped (loopback_start K)) (\<lambda>(l, bound).
     await_then (sleep nap 100) (\<lambda>_.
     await_then (leak_echo_phase K n live bound) (\<lambda>echo_growth.
     await_then (leak_churn_phase K n live nap bound) (\<lambda>churn_growth.
     done_with (l, leak_verdict echo_growth churn_growth)))))"

section \<open>The tasks that serve\<close>

text \<open>The loop that accepts, in \<open>echo_server.rs\<close> and \<open>leak_check.rs\<close>: each association goes to a task of its own.\<close>

definition accept_loop_turn :: "('w, 'x) kernel_scheme \<Rightarrow> SctpListener \<Rightarrow> SctpAssociation list \<times> 'w sys \<Rightarrow>
    SctpError turn \<times> SctpAssociation list \<times> 'w sys" where
  "accept_loop_turn K l = (\<lambda>(spawned, s). case accept_turn K l s of
     (Return (Inr (assoc, peer)), s') \<Rightarrow> (Again, spawned @ [assoc], s')
   | (Return (Inl e), s') \<Rightarrow> (Return e, spawned, s')
   | (Again, s') \<Rightarrow> (Again, spawned, s')
   | (Panicked, s') \<Rightarrow> (Panicked, spawned, s'))"

text \<open>The loop returns with the first error, and the listener is dropped.\<close>

definition accept_loop :: "('w, 'x) kernel_scheme \<Rightarrow> nat \<Rightarrow> SctpListener \<Rightarrow> SctpAssociation list \<times> 'w sys \<Rightarrow>
    SctpError turn \<times> SctpAssociation list \<times> 'w sys" where
  "accept_loop K n l ss = (case run_turns (accept_loop_turn K l) n ss of
     (Again, spawned, s) \<Rightarrow> (Again, spawned, s)
   | (t, spawned, s) \<Rightarrow> (t, spawned, drop_listener K l s))"

text \<open>\<open>main\<close> of \<open>echo_server.rs\<close> up to its loop, with the line it prints.\<close>

definition echo_server_start :: "('w, 'x) kernel_scheme \<Rightarrow> string option \<Rightarrow> (SctpError, SctpListener \<times> string, 'w sys) async" where
  "echo_server_start K arg s =
     (case socket_addr_from_str (case arg of Some x \<Rightarrow> x | None \<Rightarrow> ''127.0.0.1:38412'') of
        None \<Rightarrow> (Panicked, s)
      | Some addr \<Rightarrow>
          (case listener_bind K addr s of
             (Inl e, s1) \<Rightarrow> (Return (Inl e), s1)
           | (Inr l, s1) \<Rightarrow>
               (case listener_local_addr K l s1 of
                  (Inl e, s2) \<Rightarrow> (Return (Inl e), drop_listener K l s2)
                | (Inr a, s2) \<Rightarrow> (Return (Inr (l, ''listening on '' @ socket_addr_text a)), s2))))"

text \<open>The task of \<open>echo_server.rs\<close> ignores a send that fails and ends with a receive that does.\<close>

definition tolerant_turn :: "('s \<Rightarrow> ('e + 'x) turn \<times> 's) \<Rightarrow> ('m \<Rightarrow> 's \<Rightarrow> ('e + 'n) turn \<times> 's) \<Rightarrow> ('x \<Rightarrow> 'm option) \<Rightarrow>
    'm echoing \<times> 's \<Rightarrow> 'e turn \<times> 'm echoing \<times> 's" where
  "tolerant_turn rcv snd_turn pick ps = (case echo_turn rcv snd_turn pick ps of
     (Return e, Echoing m, s') \<Rightarrow> (Again, Receiving, s')
   | r \<Rightarrow> r)"

definition echo_server_turn :: "('w, 'x) kernel_scheme \<Rightarrow> (bytes \<times> u16 \<times> u32) echoing \<times> SctpAssociation \<times> 'w sys \<Rightarrow>
    SctpError turn \<times> (bytes \<times> u16 \<times> u32) echoing \<times> SctpAssociation \<times> 'w sys" where
  "echo_server_turn K = tolerant_turn (recv_msg_turn K) (assoc_echo_send K) data_match"

text \<open>A task that owns an association and serves it to the end.\<close>

definition serve :: "('w, 'x) kernel_scheme \<Rightarrow> ('p \<times> SctpAssociation \<times> 'w sys \<Rightarrow> SctpError turn \<times> 'p \<times> SctpAssociation \<times> 'w sys) \<Rightarrow>
    nat \<Rightarrow> 'p \<times> SctpAssociation \<times> 'w sys \<Rightarrow> SctpError turn \<times> 'w sys" where
  "serve K turn n pas = (case run_turns turn n pas of
     (Again, p, a, s) \<Rightarrow> (Again, s)
   | (t, p, a, s) \<Rightarrow> (t, drop_association K a s))"

text \<open>The task of \<open>perf.rs\<close> accepts one association, owns the listener as well and serves until a call fails.\<close>

definition perf_task :: "('w, 'x) kernel_scheme \<Rightarrow> nat \<Rightarrow> nat \<Rightarrow> SctpListener \<Rightarrow> 'w sys \<Rightarrow> SctpError turn \<times> 'w sys" where
  "perf_task K n m l s = (case accept K l n s of
     (Return (Inr (assoc, peer)), s1) \<Rightarrow>
       (case serve K (assoc_echo_turn K) m (Receiving, assoc, s1) of
          (Again, s2) \<Rightarrow> (Again, s2)
        | (t, s2) \<Rightarrow> (t, drop_listener K l s2))
   | (Return (Inl e), s1) \<Rightarrow> (Panicked, drop_listener K l s1)
   | (Again, s1) \<Rightarrow> (Again, s1)
   | (Panicked, s1) \<Rightarrow> (Panicked, drop_listener K l s1))"

section \<open>What a client does with descriptors\<close>

named_theorems tame_intros \<open>awaits on an association that keep it and every descriptor\<close>
named_theorems settled_intros \<open>awaits that leave no descriptor behind when they end\<close>

definition tame :: "('e, 'a, SctpAssociation \<times> 'w sys) async \<Rightarrow> bool" where
  "tame m \<longleftrightarrow> (\<forall>a s t a' s'. m (a, s) = (t, a', s') \<longrightarrow>
     inner a' = inner a \<and> (\<forall>d. balance d (trace s') = balance d (trace s)))"

definition settled :: "('e, 'a, 'w sys) async \<Rightarrow> bool" where
  "settled m \<longleftrightarrow> (\<forall>s t s' d. m s = (t, s') \<longrightarrow> t \<noteq> Again \<longrightarrow> balance d (trace s') = balance d (trace s))"

text \<open>What opens an association: its descriptor is the only one that is open once more.\<close>

definition opens_assoc :: "('e, SctpAssociation, 'w sys) async \<Rightarrow> bool" where
  "opens_assoc m \<longleftrightarrow> (\<forall>s t s' d. m s = (t, s') \<longrightarrow> t \<noteq> Again \<longrightarrow> balance d (trace s') = balance d (trace s)
     + (case t of Return (Inr a) \<Rightarrow> of_bool (d = inner a) | _ \<Rightarrow> 0))"

lemma await_then_cases:
  assumes "await_then m f s = (t, s'')"
  obtains (goes_on) x s' where "m s = (Return (Inr x), s')" "f x s' = (t, s'')"
  | (fails) e where "m s = (Return (Inl e), s'')" "t = Return (Inl e)"
  | (waits) "m s = (Again, s'')" "t = Again"
  | (panics) "m s = (Panicked, s'')" "t = Panicked"
  using assms by (auto simp: await_then_def split: prod.splits turn.splits sum.splits)

lemma tameI:
  "(\<And>a s t a' s' d. m (a, s) = (t, a', s') \<Longrightarrow> inner a' = inner a \<and> balance d (trace s') = balance d (trace s)) \<Longrightarrow> tame m"
  by (auto simp: tame_def)

lemma tameD: "tame m \<Longrightarrow> m (a, s) = (t, a', s') \<Longrightarrow> inner a' = inner a \<and> balance d (trace s') = balance d (trace s)"
  by (simp add: tame_def)

lemma settledD: "settled m \<Longrightarrow> m s = (t, s') \<Longrightarrow> t \<noteq> Again \<Longrightarrow> balance d (trace s') = balance d (trace s)"
  by (simp add: settled_def)

lemma tame_done [tame_intros]: "tame (done_with x)"
  by (rule tameI) (simp add: done_with_def)

lemma tame_await_then [tame_intros]:
  assumes "tame m" and "\<And>x. tame (f x)"
  shows "tame (await_then m f)"
proof (rule tameI)
  fix a s t a' s' d
  assume "await_then m f (a, s) = (t, a', s')"
  then show "inner a' = inner a \<and> balance d (trace s') = balance d (trace s)"
  proof (cases rule: await_then_cases)
    case (goes_on x as)
    obtain b u where "as = (b, u)" by (cases as)
    with goes_on tameD [OF assms(1), of a s _ b u d] tameD [OF assms(2), of x b u t a' s' d] show ?thesis by simp
  qed (use tameD [OF assms(1)] in blast)+
qed

lemma tame_unwrapped [tame_intros]: "tame m \<Longrightarrow> tame (unwrapped m)"
  by (auto simp: tame_def unwrapped_def split: prod.splits turn.splits sum.splits)

lemma tame_ignored [tame_intros]: "tame m \<Longrightarrow> tame (ignored m)"
  by (auto simp: tame_def ignored_def split: prod.splits turn.splits sum.splits)

lemma tame_call_assoc [tame_intros]: "(\<And>a. quiet (f a)) \<Longrightarrow> tame (call_assoc f)"
  by (rule tameI) (auto simp: call_assoc_def split: prod.splits dest: quiet_balance' [rotated])

lemma tame_rounds [tame_intros]: "tame m \<Longrightarrow> tame (rounds i m)"
  by (induction i) (auto intro: tame_intros)

lemma tame_vec_of [tame_intros]: "tame (vec_of b len)"
  by (rule tameI) (auto simp: vec_of_def split: if_splits)

lemma tame_run_turns:
  assumes "tame t"
  shows "tame (run_turns t n)"
proof (induction n)
  case (Suc n)
  have "run_turns t (Suc n) = (\<lambda>s. case t s of (Again, s') \<Rightarrow> run_turns t n s' | r \<Rightarrow> r)"
    by (rule ext) (auto split: prod.splits turn.splits)
  with Suc assms show ?case
    by (auto simp: tame_def split: prod.splits turn.splits)
qed (simp add: tame_def)

lemma tame_recv_msg_turn: "tame (recv_msg_turn K)"
proof (rule tameI)
  fix a a' :: SctpAssociation and s s' :: "'a sys" and t d
  assume turn: "recv_msg_turn K (a, s) = (t, a', s')"
  obtain rd s1 where p: "poll_ready K (inner a) READABLE s = (rd, s1)" by fastforce
  obtain st r s2 where st: "recv_step K (inner a) False (recv_state a) s1 = (st, r, s2)" by (metis surj_pair)
  have "balance d (trace s2) = balance d (trace s1)"
    using recv_step_sys [of K "inner a" False "recv_state a" s1] st by (auto simp: after_recv_def balance_Cons)
  with turn p st quiet_balance' [OF quiet_poll_ready p, of d]
  show "inner a' = inner a \<and> balance d (trace s') = balance d (trace s)"
    by (auto simp: recv_msg_turn_def Let_def clear_ready_def syscall_unit_def balance_Cons
        split: readiness.splits option.splits Step.splits if_splits)
qed

lemma tame_recv [tame_intros]: "tame (recv K n)"
proof -
  have "tame (recv_turn K)"
    using tame_recv_msg_turn
    by (fastforce simp: tame_def recv_turn_def split: prod.splits turn.splits sum.splits RecvResult.splits)
  then have "tame (run_turns (recv_turn K) n)" by (rule tame_run_turns)
  then show ?thesis by (simp add: tame_def recv_def)
qed

lemma tame_send_with_turn: "tame (send_with_turn K data sid pp opts)"
proof (rule tameI)
  fix a a' :: SctpAssociation and s s' :: "'a sys" and t d
  assume turn: "send_with_turn K data sid pp opts (a, s) = (t, a', s')"
  obtain rd s1 where p: "poll_ready K (inner a) WRITABLE_OR_ERROR s = (rd, s1)" by fastforce
  from turn p quiet_balance' [OF quiet_poll_ready p, of d]
  show "inner a' = inner a \<and> balance d (trace s') = balance d (trace s)"
    by (auto simp: send_with_turn_def Let_def clear_ready_def syscall_def syscall_unit_def balance_Cons
        split: readiness.splits prod.splits if_splits)
qed

lemma tame_send [tame_intros]: "tame (send K n data sid pp)"
  using tame_run_turns [OF tame_send_with_turn] by (simp add: tame_def send_def send_with_def)

lemma quiet_shutdown [quiet_intros]: "quiet (shutdown K a)"
  unfolding shutdown_def by (intro quiet_intros) simp

lemma quiet_peer_addrs [quiet_intros]: "quiet (peer_addrs K a)"
  unfolding peer_addrs_def by (intro quiet_intros)

lemma quiet_reading [quiet_intros]: "quiet (\<lambda>s. (f s, s))"
  by (rule quietI) simp

section \<open>Blocks that own an association\<close>

lemma opens_connect: "opens_assoc (connect_bound K n local addrs config)"
  unfolding opens_assoc_def
proof (intro allI impI)
  fix s t s' d
  assume "connect_bound K n local addrs config s = (t, s')" and "t \<noteq> Again"
  with connect_bound_balance [of K n local addrs config s t s']
  show "balance d (trace s') = balance d (trace s) + (case t of Return (Inr a) \<Rightarrow> of_bool (d = inner a) | _ \<Rightarrow> 0)"
    by (auto split: turn.splits sum.splits)
qed

lemma opens_connects [settled_intros]: "opens_assoc (connect K n addr)" "opens_assoc (connect_with K n addr config)"
  using opens_connect by (simp_all add: connect_def connect_with_def connect_impl_def opens_assoc_def)

lemma opens_unwrapped [settled_intros]: "opens_assoc m \<Longrightarrow> opens_assoc (unwrapped m)"
  by (fastforce simp: opens_assoc_def unwrapped_def split: prod.splits turn.splits sum.splits)

lemma settled_await_then [settled_intros]:
  assumes "settled m" and "\<And>x. settled (f x)"
  shows "settled (await_then m f)"
  unfolding settled_def
proof (intro allI impI)
  fix s t s' d
  assume "await_then m f s = (t, s')" and "t \<noteq> Again"
  then show "balance d (trace s') = balance d (trace s)"
    by (cases rule: await_then_cases) (use settledD [OF assms(1), of s _ _ d] settledD [OF assms(2), of _ _ _ _ d] in force)+
qed

lemma settled_done [settled_intros]: "settled (done_with x)"
  by (simp add: settled_def done_with_def)

lemma settled_rounds [settled_intros]: "settled m \<Longrightarrow> settled (rounds i m)"
  by (induction i) (auto intro: settled_intros)

lemma settled_read_live [settled_intros]: "settled (read_live live)"
  by (simp add: settled_def read_live_def)

lemma settled_sleep [settled_intros]: "settled (sleep nap ms)"
  by (auto simp: settled_def sleep_def)

lemma settled_with_assoc [settled_intros]:
  assumes "opens_assoc conn" and "tame body"
  shows "settled (with_assoc K conn body)"
  unfolding settled_def with_assoc_def
proof (intro allI impI)
  fix s t s' d
  assume "await_then conn (\<lambda>a s. case body (a, s) of (Again, a', s') \<Rightarrow> (Again, s')
      | (t, a', s') \<Rightarrow> (t, drop_association K a' s')) s = (t, s')" and t: "t \<noteq> Again"
  then show "balance d (trace s') = balance d (trace s)"
  proof (cases rule: await_then_cases)
    case (goes_on a s1)
    have "balance d (trace s1) = balance d (trace s) + of_bool (d = inner a)"
      using assms(1) goes_on(1) by (auto simp: opens_assoc_def)
    with goes_on(2) t tameD [OF assms(2), of a s1 _ _ _ d] show ?thesis
      by (auto simp: drop_association_def close_fd_def syscall_unit_def balance_Cons split: prod.splits turn.splits)
  qed (use assms(1) t in \<open>fastforce simp: opens_assoc_def\<close>)+
qed

lemma settled_churn_round [settled_intros]: "settled (churn_round K n bound)"
  unfolding churn_round_def leak_exchange_def by (intro settled_intros tame_intros quiet_intros)

lemma settled_leak_phases [settled_intros]: "settled (leak_echo_phase K n live bound)" "settled (leak_churn_phase K n live nap bound)"
  unfolding leak_echo_phase_def leak_churn_phase_def leak_exchange_def Let_def
  by (intro settled_intros tame_intros quiet_intros)+

lemma settled_perf_client: "settled (perf_client K n num len bound)"
  unfolding perf_client_def by (intro settled_intros tame_intros)

lemma settled_echo_client: "settled (echo_client K n arg1 arg2)"
proof (cases "socket_addr_from_str (case arg1 of Some x \<Rightarrow> x | None \<Rightarrow> ''127.0.0.1:38412'')")
  case None
  then show ?thesis by (simp add: settled_def echo_client_def)
next
  case (Some a)
  have "settled (with_assoc K (connect_with K n a echo_client_config)
          (await_then (call_assoc (peer_addrs K)) (\<lambda>peers.
           await_then (send K n (str_bytes msg) 0 M3UA) (\<lambda>_.
           await_then (recv K n) (\<lambda>x.
           await_then (call_assoc (shutdown K)) (\<lambda>_. done_with (peers, snd x, fst x)))))))" for msg
    by (intro settled_intros tame_intros quiet_intros)
  with Some show ?thesis by (simp add: settled_def echo_client_def case_prod_unfold)
qed

section \<open>A service that ignores failed sends\<close>

context echo_service
begin

lemma tolerant_turn_ledger:
  assumes "inv s" and "tolerant_turn turn send_turn pick (p, s) = (Again, p', s')"
  shows "inv s' \<and> acc s' = snd (feed push (acc s) (echo_chunks chunks (p, s)))
    \<and> (\<exists>new. accepted s' = accepted s @ new \<and> subseq (map shown new @ pending p')
        (pending p @ List.map_filter pick (List.map_filter report (fst (feed push (acc s) (echo_chunks chunks (p, s)))))))"
proof (cases p)
  case Receiving
  obtain t s1 where t: "turn s = (t, s1)" by fastforce
  note f = turn_feeds [OF assms(1) t] and k = receive_sends_nothing [OF t]
  have s1: "s1 = s'" using assms(2) t Receiving by (auto simp: tolerant_turn_def split: turn.splits sum.splits option.splits)
  have "pending p' = List.map_filter pick (List.map_filter turn_result [t])"
    using assms(2) t Receiving
    by (auto simp: tolerant_turn_def List.map_filter_simps split: turn.splits sum.splits option.splits)
  with f k s1 Receiving show ?thesis by auto
next
  case (Echoing m)
  obtain t s1 where t: "send_turn m s = (t, s1)" by fastforce
  show ?thesis
  proof (cases t)
    case Again
    with assms t Echoing send_keeps [OF t] send_waits [of m s s1] show ?thesis
      by (auto simp: tolerant_turn_def List.map_filter_simps)
  next
    case (Return r)
    with assms(2) t Echoing have s1: "s1 = s'" "p' = Receiving" by (cases r; auto simp: tolerant_turn_def)+
    with Return assms t Echoing send_keeps [OF t] send_sends [of m s _ s1] send_fails [of m s _ s1] show ?thesis
      by (cases r) (auto simp: List.map_filter_simps)
  next
    case Panicked
    with assms(2) t Echoing show ?thesis by (simp add: tolerant_turn_def)
  qed
qed

lemma tolerant_echoes:
  "inv s \<Longrightarrow> session (tolerant_turn turn send_turn pick) (echo_chunks chunks) n (p, s) = (ts, cs, p', s') \<Longrightarrow> set ts \<subseteq> {Again} \<Longrightarrow>
   inv s' \<and> acc s' = snd (feed push (acc s) cs)
   \<and> (\<exists>new. accepted s' = accepted s @ new \<and> subseq (map shown new @ pending p')
       (pending p @ List.map_filter pick (List.map_filter report (fst (feed push (acc s) cs)))))"
proof (induction n arbitrary: p s ts cs)
  case 0
  then show ?case by (simp add: List.map_filter_simps)
next
  case (Suc n)
  let ?out = "\<lambda>b cs. List.map_filter pick (List.map_filter report (fst (feed push b cs)))"
  obtain t p1 s1 where t: "tolerant_turn turn send_turn pick (p, s) = (t, p1, s1)" by (metis surj_pair)
  obtain ts1 cs1 where s1: "session (tolerant_turn turn send_turn pick) (echo_chunks chunks) n (p1, s1) = (ts1, cs1, p', s')"
    and ts: "ts = t # ts1" and cs: "cs = echo_chunks chunks (p, s) @ cs1"
    using Suc.prems(2) t by (auto split: prod.splits)
  have a: "t = Again" "set ts1 \<subseteq> {Again}" using Suc.prems(3) ts by auto
  obtain new where f: "inv s1" "acc s1 = snd (feed push (acc s) (echo_chunks chunks (p, s)))" "accepted s1 = accepted s @ new"
    "subseq (map shown new @ pending p1) (pending p @ ?out (acc s) (echo_chunks chunks (p, s)))"
    using tolerant_turn_ledger [OF Suc.prems(1) t [unfolded a(1)]] by blast
  obtain new1 where g: "inv s'" "acc s' = snd (feed push (acc s1) cs1)" "accepted s' = accepted s1 @ new1"
    "subseq (map shown new1 @ pending p') (pending p1 @ ?out (acc s1) cs1)"
    using Suc.IH [OF f(1) s1 a(2)] by blast
  have "subseq (map shown new @ map shown new1 @ pending p') (map shown new @ pending p1 @ ?out (acc s1) cs1)"
    by (rule list_emb_append_mono [OF subseq_order.refl g(4)])
  also have "subseq \<dots> (pending p @ ?out (acc s) (echo_chunks chunks (p, s)) @ ?out (acc s1) cs1)"
    using list_emb_append_mono [OF f(4) subseq_order.refl [of "?out (acc s1) cs1"]] by simp
  finally show ?case
    using f g by (intro conjI exI [of _ "new @ new1"]) (auto simp: cs feed_append map_filter_append split: prod.splits)
qed

end

section \<open>The descriptors of the tasks\<close>

lemma accept_loop_keeps:
  "run_turns (accept_loop_turn K l) n (spawned, s) = (t, spawned', s') \<Longrightarrow>
   \<exists>new fd k. spawned' = spawned @ new \<and> t \<noteq> Panicked \<and> (\<forall>a \<in> set new. a = new_association (inner a))
     \<and> k \<in> {0, 1} \<and> (t = Again \<longrightarrow> k = 0)
     \<and> (\<forall>d. balance d (trace s') = balance d (trace s) + int (count_list (map inner new) d) + (if d = fd then k else 0))"
proof (induction n arbitrary: spawned s)
  case 0
  then show ?case by (intro exI [of _ "[]"] exI [of _ 0]) auto
next
  case (Suc n)
  obtain u s1 where u: "accept_turn K l s = (u, s1)" by fastforce
  note k = accept_turn_kept [OF u]
  show ?case
  proof (cases u)
    case Again
    with k Suc.prems u Suc.IH [of spawned s1] show ?thesis by (auto simp: accept_loop_turn_def accept_kept_def)
  next
    case (Return r)
    show ?thesis
    proof (cases r)
      case (Inl e)
      with k Return obtain fd where fd: "\<forall>d. d \<noteq> fd \<longrightarrow> balance d (trace s1) = balance d (trace s)"
        "balance fd (trace s1) - balance fd (trace s) \<in> {0, 1}" by (auto simp: accept_kept_def)
      with Suc.prems u Return Inl show ?thesis
        by (intro exI [of _ "[]"] exI [of _ fd] exI [of _ "balance fd (trace s1) - balance fd (trace s)"])
          (auto simp: accept_loop_turn_def)
    next
      case (Inr x)
      obtain a peer where x: "x = (a, peer)" by (cases x)
      have b: "a = new_association (inner a)" "balance d (trace s1) = balance d (trace s) + (if d = inner a then 1 else 0)" for d
        using k Return Inr x by (simp_all add: accept_kept_def)
      have "run_turns (accept_loop_turn K l) n (spawned @ [a], s1) = (t, spawned', s')"
        using Suc.prems u Return Inr x by (simp add: accept_loop_turn_def)
      then obtain new fd k where "spawned' = (spawned @ [a]) @ new" "t \<noteq> Panicked" "\<forall>a \<in> set new. a = new_association (inner a)"
        "k \<in> {0, 1}" "t = Again \<longrightarrow> k = 0"
        "\<forall>d. balance d (trace s') = balance d (trace s1) + int (count_list (map inner new) d) + (if d = fd then k else 0)"
        using Suc.IH by blast
      with b show ?thesis by (intro exI [of _ "a # new"] exI [of _ fd] exI [of _ k]) auto
    qed
  next
    case Panicked
    with k show ?thesis by (simp add: accept_kept_def)
  qed
qed

definition keeps_assoc :: "('p \<times> SctpAssociation \<times> 'w sys \<Rightarrow> 'r \<times> 'p \<times> SctpAssociation \<times> 'w sys) \<Rightarrow> bool" where
  "keeps_assoc turn \<longleftrightarrow> (\<forall>p a s t p' a' s'. turn (p, a, s) = (t, p', a', s') \<longrightarrow>
     inner a' = inner a \<and> (\<forall>d. balance d (trace s') = balance d (trace s)))"

lemma keeps_echo_turn:
  assumes "tame rcv" and "\<And>m. tame (snd_turn m)"
  shows "keeps_assoc (echo_turn rcv snd_turn pick)"
  unfolding keeps_assoc_def
proof (intro allI impI)
  fix p a s t p' a' s'
  assume "echo_turn rcv snd_turn pick (p, a, s) = (t, p', a', s')"
  then show "inner a' = inner a \<and> (\<forall>d. balance d (trace s') = balance d (trace s))"
    using assms by (cases p) (auto simp: tame_def split: prod.splits turn.splits sum.splits)
qed

lemma keeps_tolerant_turn:
  "keeps_assoc (echo_turn rcv snd_turn pick) \<Longrightarrow> keeps_assoc (tolerant_turn rcv snd_turn pick)"
  unfolding keeps_assoc_def tolerant_turn_def
  by (fastforce split: prod.splits turn.splits echoing.splits)

lemma keeps_services: "keeps_assoc (echo_server_turn K)" "keeps_assoc (assoc_echo_turn K)"
proof -
  have "tame (assoc_echo_send K m)" for m
    using tame_send_with_turn by (simp add: assoc_echo_send_def case_prod_unfold)
  then have k: "keeps_assoc (echo_turn (recv_msg_turn K) (assoc_echo_send K) data_match)"
    by (rule keeps_echo_turn [OF tame_recv_msg_turn])
  then show "keeps_assoc (echo_server_turn K)" "keeps_assoc (assoc_echo_turn K)"
    by (simp_all add: echo_server_turn_def keeps_tolerant_turn assoc_echo_turn_eq)
qed

lemma keeps_run_turns:
  assumes "keeps_assoc turn"
  shows "keeps_assoc (run_turns turn n)"
proof (induction n)
  case (Suc n)
  have "run_turns turn (Suc n) = (\<lambda>s. case turn s of (Again, s') \<Rightarrow> run_turns turn n s' | r \<Rightarrow> r)"
    by (rule ext) (auto split: prod.splits turn.splits)
  with Suc assms show ?case
    by (auto simp: keeps_assoc_def split: prod.splits turn.splits)
qed (simp add: keeps_assoc_def)

lemma serve_closes:
  assumes "keeps_assoc turn" and "serve K turn n (p, a, s) = (t, s')" and "t \<noteq> Again"
  shows "balance d (trace s') = balance d (trace s) - (if d = inner a then 1 else 0)"
proof -
  obtain u p1 a1 s1 where r: "run_turns turn n (p, a, s) = (u, p1, a1, s1)" by (metis surj_pair)
  have "inner a1 = inner a \<and> balance d (trace s1) = balance d (trace s)"
    using keeps_run_turns [OF assms(1), of n] r by (simp add: keeps_assoc_def)
  with assms(2,3) r show ?thesis
    by (cases u) (auto simp: serve_def drop_association_def close_fd_def syscall_unit_def balance_Cons)
qed

lemma perf_task_closes:
  assumes "perf_task K n m l s = (Return e, s')"
  shows "balance d (trace s') = balance d (trace s) - (if d = l_inner l then 1 else 0)"
proof -
  obtain assoc peer s1 s2 where a: "accept K l n s = (Return (Inr (assoc, peer)), s1)"
    "serve K (assoc_echo_turn K) m (Receiving, assoc, s1) = (Return e, s2)" "s' = drop_listener K l s2"
    using assms by (auto simp: perf_task_def split: prod.splits turn.splits sum.splits)
  with accept_keeps [OF a(1)] serve_closes [OF keeps_services(2) a(2), of d] show ?thesis
    by (auto simp: accept_kept_def drop_listener_def close_fd_def syscall_unit_def balance_Cons)
qed

section \<open>Properties\<close>

text \<open>
  C22: the clients close what they open. Whatever the kernel answers and wherever they fail, when the echo
  client, the client of the throughput driver, or either phase of the traffic of the leak check has returned
  or panicked, after thousands of associations and messages, every descriptor is open exactly as often as
  before it started.
\<close>

theorem clients_close_what_they_open:
  assumes "echo_client K n arg1 arg2 s = (t1, s1)" and "perf_client K n num len bound s = (t2, s2)"
    and "leak_echo_phase K n live bound s = (t3, s3)" and "leak_churn_phase K n live nap bound s = (t4, s4)"
  shows "(t1 = Again \<or> balance d (trace s1) = balance d (trace s)) \<and> (t2 = Again \<or> balance d (trace s2) = balance d (trace s))
    \<and> (t3 = Again \<or> balance d (trace s3) = balance d (trace s)) \<and> (t4 = Again \<or> balance d (trace s4) = balance d (trace s))"
  using settledD [OF settled_echo_client assms(1), of d] settledD [OF settled_perf_client assms(2), of d]
    settledD [OF settled_leak_phases(1) assms(3), of d] settledD [OF settled_leak_phases(2) assms(4), of d]
  by blast

lemma sample_io:
  "k_recvmsg sample_kernel = (\<lambda>_ n _. sample_recvmsg n)" "k_sendmsg sample_kernel = (\<lambda>_ d _ _ _ _ _. sample_sendmsg d)"
  "k_shutdown sample_kernel = (\<lambda>_ _ w. (0, w))" "k_getpaddrs sample_kernel = (\<lambda>_ _ w. ((0, 0, []), w))"
  "k_freepaddrs sample_kernel = (\<lambda>_ w. w)"
  by (simp_all add: sample_defs)

theorem clients_close_what_they_open_witness:
  "\<exists>x s'. echo_client sample_kernel 1 (Some (socket_addr_text (V4 2130706433 38412))) None
      (sample_sys [([104], MSG_EOR, sample_sinfo)] 1) = (Return (Inr x), s') \<and> balance 3 (trace s') = 0"
proof -
  let ?s = "sample_sys [([104], MSG_EOR, sample_sinfo)] 1"
  let ?run = "echo_client sample_kernel 1 (Some (socket_addr_text (V4 2130706433 38412))) None ?s"
  let ?K = sample_kernel and ?a = "new_association 3"
  obtain s1 where c1: "connect_with ?K 1 (V4 2130706433 38412) echo_client_config ?s = (Return (Inr ?a), s1)" "kern s1 = kern ?s"
    by (simp add: connect_with_def connect_impl_def connect_eval echo_client_config_def cfg_nodelay_def cfg_streams_def
        setsockopt_def)
  obtain ps s2 where c2: "call_assoc (peer_addrs ?K) (?a, s1) = (Return (Inr ps), ?a, s2)" "kern s2 = kern ?s"
    using c1(2) by (simp add: call_assoc_def peer_addrs_def addrs_via_def sample_io syscall_def syscall_unit_def neg_def)
  obtain k s3 where c3: "send ?K 1 (str_bytes ''hello sctp'') 0 M3UA (?a, s2) = (Return (Inr k), ?a, s3)"
    "kern s3 = (kern ?s)\<lparr>room := 0, sent := [str_bytes ''hello sctp'']\<rparr>"
    using c2(2) by (simp add: send_def send_with_def send_with_turn_def poll_ready_def sample_io sample_calls
        sample_sendmsg_def syscall_def Let_def neg_def sample_sys_def str_bytes_def)
  let ?c = "([104], MSG_EOR, sample_sinfo, None) :: chunk"
  have "delivers ?K False (inner ?a) (kern s3) [?c]"
    using c3(2) by (simp add: new_association_def sample_io sample_calls sample_sys_def sample_out_def RECV_WINDOW_def neg_def
        answer_chunk_def sender_of_def)
  then obtain m a4 s4 where c4: "recv ?K 1 (?a, s3) = (Return (Inr m), a4, s4)"
    using recv_delivers [of ?K ?a s3 "[?c]" "[]"] sample_recvmsg_ok
    by (auto simp: new_association_def reassembly_inv_default MSG_EOR_def MSG_NOTIFICATION_def is_record_def)
  obtain s5 where c5: "call_assoc (shutdown ?K) (a4, s4) = (Return (Inr ()), a4, s5)"
    by (simp add: call_assoc_def shutdown_def sample_io checked_def check_ret_def syscall_def and_then_def neg_def prog_apply)
  have "\<exists>x s'. ?run = (Return (Inr x), s')"
    by (cases m) (simp add: echo_client_def socket_addr_from_text with_assoc_def await_then_def c1 c2 c3 c4 c5 done_with_def
        del: socket_addr_text.simps One_nat_def)
  then obtain x s' where r: "?run = (Return (Inr x), s')" by blast
  obtain t2 s2 where p: "perf_client sample_kernel 1 0 1 (V4 1 80) ?s = (t2, s2)" by fastforce
  obtain t3 s3 where e: "leak_echo_phase sample_kernel 1 (\<lambda>_. 0) (V4 1 80) ?s = (t3, s3)" by fastforce
  obtain t4 s4 where c: "leak_churn_phase sample_kernel 1 (\<lambda>_. 0) (\<lambda>_ w. w) (V4 1 80) ?s = (t4, s4)" by fastforce
  have "trace ?s = []" by (simp add: sample_sys_def)
  with clients_close_what_they_open [OF r p e c, of 3] have "balance 3 (trace s') = 0" by simp
  with r show ?thesis by blast
qed

text \<open>
  The accepting loop and its tasks account for every descriptor. While the loop waits, the descriptors
  open beyond those of its start are exactly those of the associations it has handed to tasks, each of them
  fresh and each owned by one task; and a task that serves such an association, whether it gives up on a
  failed send or ignores it, has closed exactly that descriptor when it ends.
\<close>

lemma accept_loop_accounts:
  assumes "accept_loop K n l ([], s) = (t, spawned, s')"
    and "serve K (echo_server_turn K) m1 (Receiving, a1, u1) = (r1, v1)"
    and "serve K (assoc_echo_turn K) m2 (Receiving, a2, u2) = (r2, v2)"
  shows "t \<noteq> Panicked \<and> list_all (\<lambda>a. a = new_association (inner a)) spawned
    \<and> (if t = Again then balance d (trace s') = balance d (trace s) + int (count_list (map inner spawned) d) else True)
    \<and> (r1 = Again \<or> balance d (trace v1) = balance d (trace u1) - (if d = inner a1 then 1 else 0))
    \<and> (r2 = Again \<or> balance d (trace v2) = balance d (trace u2) - (if d = inner a2 then 1 else 0))"
proof -
  obtain t1 sp s1 where r: "run_turns (accept_loop_turn K l) n ([], s) = (t1, sp, s1)" by (metis surj_pair)
  with assms have t: "t1 = t" "sp = spawned" "t = Again \<longrightarrow> s1 = s'"
    by (auto simp: accept_loop_def split: turn.splits)
  obtain new fd k where n: "sp = new" "t1 \<noteq> Panicked" "\<forall>a \<in> set new. a = new_association (inner a)" "t1 = Again \<longrightarrow> k = 0"
    "\<forall>d. balance d (trace s1) = balance d (trace s) + int (count_list (map inner new) d) + (if d = fd then k else 0)"
    using accept_loop_keeps [OF r] by auto
  have "t \<noteq> Panicked" "list_all (\<lambda>a. a = new_association (inner a)) spawned"
    "if t = Again then balance d (trace s') = balance d (trace s) + int (count_list (map inner spawned) d) else True"
    using t n by (auto simp: list_all_iff)
  with serve_closes [OF keeps_services(1) assms(2), of d] serve_closes [OF keeps_services(2) assms(3), of d]
  show ?thesis by blast
qed

text \<open>
  C23: the echo server sends back only what it has received, each message at most once and in order. Whatever
  parts and notifications the kernel delivers, and whichever sends fail, the messages the kernel has taken
  from a task of \<open>echo_server.rs\<close>, followed by the one it is about to send, are a subsequence of the complete
  messages delivered to it, each whole, on its stream and with its protocol identifier.
\<close>

theorem echo_server_in_order:
  assumes "recvmsg_ok K" and "reassembly_inv (recv_state a)" and "buf (recv_state a) = []"
    and "session (echo_server_turn K) (echo_chunks (turn_chunks K)) n (Receiving, a, s) = (ts, cs, p, a', s')"
    and "set ts \<subseteq> {Again}"
    and "filter is_data_chunk cs = concat gs @ rest"
    and "\<forall>g \<in> set gs. is_record is_last_chunk g" and "\<forall>c \<in> set rest. \<not> is_last_chunk c"
  shows "\<exists>new. filter taken (trace s') = filter taken (trace s) @ new
    \<and> subseq (map (assoc_echo (target_endian K)) new @ pending p)
       (map (\<lambda>g. (concat (map fst g), stream (fst (snd (message_of (target_endian K) [] (last g)))),
          ppid (fst (snd (message_of (target_endian K) [] (last g)))))) gs)"
proof -
  have m: "List.map_filter data_match (List.map_filter step_result xs)
      = map (\<lambda>(d, info, addr). (d, stream info, ppid info)) (List.map_filter step_message xs)" for xs
  proof (induction xs)
    case (Cons x xs)
    then show ?case by (cases x) (simp_all add: List.map_filter_simps)
  qed (simp add: List.map_filter_simps)
  have o: "(\<lambda>(d, info, addr). (d, stream info, ppid info)) (message_of e b c)
      = (b, stream (fst (snd (message_of e [] c))), ppid (fst (snd (message_of e [] c))))" for e b c by (cases c) simp
  show ?thesis
    using assoc_echoing.tolerant_echoes [of K "(a, s)" n Receiving ts cs p "(a', s')"] assms(1-5)
      reassembly.feed_records [OF assms(6-8), of "target_endian K"]
    by (simp add: echo_server_turn_def recv_inv_def recv_acc_def accepted_by_def m o comp_def)
qed

theorem echo_server_in_order_witness:
  "\<exists>ts cs a' s'. session (echo_server_turn sample_kernel) (echo_chunks (turn_chunks sample_kernel)) 1
      (Receiving, new_association 3, sample_sys [([187, 188], MSG_EOR, sample_sinfo)] 1) = (ts, cs, Echoing ([187, 188], 7, 18), a', s')
    \<and> filter taken (trace s') = []"
proof -
  let ?K = sample_kernel and ?a = "new_association 3" and ?s = "sample_sys [([187, 188], MSG_EOR, sample_sinfo)] 1"
  let ?c = "([187, 188], MSG_EOR, sample_sinfo, None) :: chunk" and ?m = "([187, 188], 7, 18) :: bytes \<times> u16 \<times> u32"
  have fd: "inner ?a = 3" and inv: "reassembly_inv (recv_state ?a)" and b: "buf (recv_state ?a) = []"
    by (simp_all add: new_association_def reassembly_inv_default) (simp add: default_Reassembly_def)
  have del: "delivers ?K False 3 (kern ?s) [?c]"
    by (simp add: sample_io sample_calls sample_sys_def sample_out_def RECV_WINDOW_def neg_def answer_chunk_def sender_of_def)
  let ?d = "Complete [187, 188] (info_of Little sample_sinfo) None"
  have push: "push_input Little [] ?c = (?d, [])"
    by (simp add: push_chunk_def info_of_def MSG_EOR_def MSG_NOTIFICATION_def)
  obtain s1 r s2 where t1: "poll_ready ?K 3 READABLE ?s = (Ready, s1)" "recv_step ?K 3 False (recv_state ?a) s1 = (Some ?d, r, s2)"
    using delivers_step [OF sample_recvmsg_ok inv del] push b by (auto simp del: push_input.simps)
  have m: "data_match (Data [187, 188] (info_of Little sample_sinfo)) = Some ?m"
    by (simp add: info_of_def sample_sinfo_def default_SctpSndRcvInfo_def from_be_to_be)
  have e1: "echo_server_turn ?K (Receiving, ?a, ?s) = (Again, Echoing ?m, ?a\<lparr>recv_state := r\<rparr>, s2)"
    using t1 m by (simp add: echo_server_turn_def tolerant_turn_def recv_msg_turn_def fd del: data_match.simps)
  have "turn_chunks ?K (?a, ?s) = [?c]"
    using del by (simp add: turn_chunks_def ready_chunks_def fd Let_def split: prod.splits)
  with e1 have run: "session (echo_server_turn ?K) (echo_chunks (turn_chunks ?K)) 1 (Receiving, ?a, ?s)
      = ([Again], [?c], Echoing ?m, ?a\<lparr>recv_state := r\<rparr>, s2)" by simp
  have f: "set [Again] \<subseteq> {Again :: SctpError turn}" "filter is_data_chunk [?c] = concat [[?c]] @ []"
    "\<forall>g \<in> set [[?c]]. is_record is_last_chunk g" "\<forall>c \<in> set ([] :: chunk list). \<not> is_last_chunk c"
    by (simp_all add: MSG_NOTIFICATION_def MSG_EOR_def is_record_def)
  obtain new where n: "filter taken (trace s2) = filter taken (trace ?s) @ new"
    "subseq (map (assoc_echo Little) new @ [?m]) [([187, 188], stream (info_of Little sample_sinfo), ppid (info_of Little sample_sinfo))]"
    using echo_server_in_order [OF sample_recvmsg_ok inv b run f] by auto
  then have "length (map (assoc_echo Little) new @ [?m]) \<le> Suc 0" using list_emb_length [OF n(2)] by simp
  with n(1) have "filter taken (trace s2) = []" by (simp add: sample_sys_def)
  with run show ?thesis by blast
qed

end
