(* ===== verification/Unit_Tests.thy ===== *)
theory Unit_Tests
  imports Recv Ppid
begin

text \<open>
  The unit tests that the crate keeps beside \<open>recv.rs\<close> and \<open>ppid.rs\<close>, translated as the source has them: a
  test is the conjunction of its assertions, and a match whose other arms panic is false on them. That they
  pass on the model, on a target of either byte order, checks the definitions against what the authors expect.
\<close>

section \<open>Reassembly\<close>

definition test_sinfo :: "endian \<Rightarrow> u16 \<Rightarrow> u32 \<Rightarrow> i32 \<Rightarrow> SctpSndRcvInfo" where
  "test_sinfo e sid pp aid = default_SctpSndRcvInfo\<lparr>sinfo_stream := sid, sinfo_ppid := to_be e 4 pp, sinfo_assoc_id := aid\<rparr>"

definition reassembles_across_interleaved_notification :: "endian \<Rightarrow> bool" where
  "reassembles_across_interleaved_notification e =
     (let si = test_sinfo e 7 S1AP 42;
          frag_a = replicate 100 0xAA;
          notif = replicate 4 0;
          frag_b = replicate 50 0xBB
      in case push_chunk e [] frag_a 0 si None of (step1, buf1) \<Rightarrow>
         case push_chunk e buf1 notif MSG_NOTIFICATION si None of (step2, buf2) \<Rightarrow>
         case push_chunk e buf2 frag_b MSG_EOR si None of (step3, buf3) \<Rightarrow>
           (case step1 of More \<Rightarrow> True | _ \<Rightarrow> False) \<and> buf1 = frag_a
         \<and> (case step2 of StepNotification _ \<Rightarrow> True | _ \<Rightarrow> False) \<and> buf2 = frag_a
         \<and> (case step3 of
              Complete data info addr \<Rightarrow> data = frag_a @ frag_b \<and> stream info = 7 \<and> ppid info = S1AP
                \<and> assoc_id info = 42 \<and> addr = None
            | _ \<Rightarrow> False)
         \<and> buf3 = [])"

definition single_chunk_message_completes_immediately :: "endian \<Rightarrow> bool" where
  "single_chunk_message_completes_immediately e =
     (let si = test_sinfo e 0 M3UA 1; hello = map of_char ''hello'' in
      case push_chunk e [] hello MSG_EOR si None of (step, buf1) \<Rightarrow>
        (case step of Complete data info _ \<Rightarrow> data = hello \<and> ppid info = M3UA | _ \<Rightarrow> False) \<and> buf1 = [])"

lemma reassembly_tests_pass:
  "reassembles_across_interleaved_notification e" "single_chunk_message_completes_immediately e"
  by (simp_all add: reassembles_across_interleaved_notification_def single_chunk_message_completes_immediately_def
      test_sinfo_def default_SctpSndRcvInfo_def push_chunk_def MSG_NOTIFICATION_def MSG_EOR_def from_be_to_be Let_def
      del: replicate.simps)

section \<open>Protocol identifiers\<close>

definition well_known_names :: bool where
  "well_known_names \<longleftrightarrow> ppid_name M3UA = Some ''M3UA'' \<and> ppid_name M2PA = Some ''M2PA'' \<and> ppid_name NGAP = Some ''NGAP''
     \<and> ppid_name S1AP = Some ''S1AP'' \<and> ppid_name DIAMETER = Some ''DIAMETER'' \<and> ppid_name 99999 = None"

definition display_format :: bool where
  "display_format \<longleftrightarrow> ppid_display NGAP = ''NGAP(60)'' \<and> ppid_display 99999 = ''PPID(99999)''"

lemma ppid_tests_pass: well_known_names display_format
  by (simp_all add: well_known_names_def display_format_def ppid_display_def ppid_name_def ppid_consts fmt_u_def
      dec_nat.simps digit_def)

end
