(* ===== verification/Spec2Isabelle.thy ===== *)
theory Spec2Isabelle
  imports Sctp_Prelude Fmt Sys Errors Kernel Sample_Kernel Ppid Types Addr Notifications Recv Async Receiver
    Config Socket Association Assoc_Recv Assoc_Send Assoc_Connect Listener Server Interleave Tasks Duplex Server_Tasks
    Channel Drain Objects Net_Text Python Loops Echo Conversation Leak_Check Clients Unit_Tests
begin

text \<open>
  A verification library for \<open>async-sctp\<close>, an asynchronous SCTP transport for Linux in Rust
  (\<open>src/src/*.rs\<close>).

  \<^bold>\<open>The program.\<close> A socket of the crate is a non-blocking descriptor registered with tokio's reactor.
  \<open>association.rs\<close> has the one-to-one association (connect, send, receive, addresses, shutdown, abort)
  and the helpers on descriptors; \<open>listener.rs\<close> binds a listening socket and accepts associations;
  \<open>server.rs\<close> serves many associations on one socket and peels them off. They rest on \<open>config.rs\<close>
  (socket options), \<open>addr.rs\<close> (raw socket addresses), \<open>recv.rs\<close> (reassembly of messages delivered in
  parts), \<open>notification.rs\<close> (decoding of the kernel's events), \<open>reactor.rs\<close> (registration), \<open>sys.rs\<close>
  (constants, structures, declarations of \<open>libsctp\<close>), \<open>error.rs\<close>, \<open>types.rs\<close> and \<open>ppid.rs\<close>. \<open>python.rs\<close>
  wraps the four types as Python classes. \<open>src/examples/*.rs\<close> are its clients: echo servers and clients, a
  throughput driver and a leak check with an allocator of its own.

  \<^bold>\<open>What is outside.\<close> The kernel, \<open>libc\<close>, \<open>libsctp\<close> and tokio's \<open>AsyncFd\<close> are parameters: a record
  \<open>kernel\<close> of functions over a type \<open>'w\<close> of worlds, with the constants and structure layouts of
  \<open>libc\<close> (theory \<open>Kernel\<close>). The state that the operations thread is \<open>'w sys\<close>: the world and the trace
  of the calls made. What a theorem relies on is a named hypothesis: \<open>libc_ok\<close> (the fields of socket
  addresses are where a documented layout has them), \<open>recvmsg_ok\<close> (\<open>sctp_recvmsg\<close> stays within the
  window it is given and returns the number of bytes it wrote), \<open>registers\<close> (registration does not fail),
  \<open>keeps_readiness\<close> and \<open>queue_empty\<close> (a reported readiness lasts until it is cleared; the queue of an association
  that is over stays empty), \<open>module_ok\<close> (adding an attribute to a Python module sets it and no other). PyO3 is a parameter too: the
  error \<open>future_into_py\<close> raises without an event loop, and the operations of a module.
  \<open>Sample_Kernel\<close> is a concrete kernel on which the witnesses evaluate.

  \<^bold>\<open>Asynchronous functions.\<close> Every async function of the crate is a loop with one await point at its
  head and keeps nothing but its arguments across it (\<open>established\<close> also its flag \<open>both\<close>). It is
  modelled by its turn, what happens from one poll at the await to the next, and \<open>run_turns n\<close> polls it
  at most \<open>n\<close> times (theory \<open>Async\<close>). The number of polls is the only fuel in the development, and it is
  not a bound of the model: \<open>Again\<close> is a future that waits, which the caller polls again or drops.
  Theorems that something returns give the number of polls that is enough (\<open>recv_returns_message\<close>: one
  for each chunk delivered, as \<open>py_server_loop_returns\<close>; \<open>reader_terminates\<close>: one more; \<open>stays_ended\<close>, \<open>send_released_by_end\<close>, \<open>refused_connect_returns\<close>: one); the others hold for
  every number. A panic of the source (the slice in \<open>recv_step\<close>) is the outcome \<open>Panicked\<close>, shown not to
  occur; a read past the buffer in \<open>parse_notification_checked\<close> is \<open>None\<close>, shown not to occur either.

  \<^bold>\<open>The theories.\<close>
  \<^item> \<open>Sctp_Prelude\<close>: machine types, byte orders, byte buffers, results threaded through a state. Locale
    \<open>byte_codec\<close>, interpreted on the native encodings of 16, 32 and 128 bits. \<open>Fmt\<close>: decimal and
    hexadecimal printing.
  \<^item> \<open>Sys\<close>, \<open>Errors\<close>, \<open>Ppid\<close>, \<open>Types\<close>: \<open>sys.rs\<close>, \<open>error.rs\<close>, \<open>ppid.rs\<close>, \<open>types.rs\<close>, each constant,
    structure and \<open>Display\<close>. The label of a protocol identifier determines it.
  \<^item> \<open>Kernel\<close>: the parameters above; the balance of a descriptor over a trace (how often it was opened less
    how often it was closed), \<open>quiet\<close> programs that leave it alone and the calls a program \<open>emits\<close>.
  \<^item> \<open>Addr\<close>: \<open>addr.rs\<close> at the level of bytes. Locale \<open>entry_codec\<close>, the contract of a self-delimiting
    array, provided by every documented layout (\<open>libc_layout\<close>). Conversions and packed arrays round-trip.
  \<^item> \<open>Notifications\<close>: \<open>notification.rs\<close>; its reads are checked, the guards of the
    source make all of them succeed, and decoding inverts the kernel's encoding.
  \<^item> \<open>Recv\<close>: \<open>recv.rs\<close>. Locale \<open>record_stream\<close> specifies an accumulator of records and \<open>push_chunk\<close>
    implements it: exactly the records are handed out. \<open>recv_step\<close> on every branch.
  \<^item> \<open>Receiver\<close>: locale \<open>receiver\<close>, the contract of a receive that feeds an accumulator kept in the socket;
    cancel-safety is proved once from it and used for the association (\<open>Assoc_Recv\<close>) and the server. Locale
    \<open>message_reader\<close>, the contract of a receive that skips notifications, with the theorem that it returns the
    next message; provided by the association's \<open>recv\<close> and the Python server's.
  \<^item> \<open>Async\<close>: also locale \<open>send_loop\<close>, the contract of a send (whole and once, or not at all), provided by
    the association (\<open>Assoc_Send\<close>) and the server.
  \<^item> \<open>Config\<close>: \<open>config.rs\<close>; what applying a configuration sets, by the answers of the kernel up to the
    first that refuses.
  \<^item> \<open>Socket\<close>: \<open>reactor.rs\<close> and the helpers at the end of \<open>association.rs\<close>: options, local bind, the
    outcome of a connect. Ownership of descriptors: locale \<open>fd_constructor\<close>, provided by the connect and by
    the two binds.
  \<^item> \<open>Association\<close>: the state and every operation of \<open>SctpAssociation\<close>. Its properties are in
    \<open>Assoc_Recv\<close> (receives are cancel-safe and return; the end of the association is remembered),
    \<open>Assoc_Send\<close> (sent exactly once; waits without spinning; released by the end of the association;
    flags and protocol identifier) and \<open>Assoc_Connect\<close> (the calls of a connect; its descriptor is closed
    exactly once on every error; refusals).
  \<^item> \<open>Listener\<close>: \<open>listener.rs\<close>; the calls of a bind, accept and its descriptors.
  \<^item> \<open>Server\<close>: \<open>server.rs\<close>; cancel-safe receive, send exactly once, bind and peeloff and their descriptors.
  \<^item> \<open>Interleave\<close>: tasks that share a socket, their atomic actions interleaved in any order (\<open>interleaves\<close>,
    an inductive relation) with drops at the awaits and changes of the world. Locale \<open>shared_socket\<close>: what
    the socket makes and what the tasks hold balance in every reachable state, by rule induction.
  \<^item> \<open>Tasks\<close>: \<open>recv_msg\<close> and \<open>send_with\<close> as such actions; the locale is interpreted twice, for what is received
    and for what is sent. A turn is its actions in one go (\<open>recv_msg_turn_actions\<close>). \<open>Server_Tasks\<close>: the same
    for \<open>recv\<close> and \<open>send_with\<close> of the server, two further interpretations.
  \<^item> \<open>Duplex\<close>: one reader and one writer (\<open>takes_turns\<close>, the relation with a discipline on what may start).
    Locale \<open>ordered_socket\<close> of \<open>Interleave\<close>, interpreted for the reader and for the writer: both orders are kept.
  \<^item> \<open>Channel\<close>: two associations and the network between them implement a queue of messages.
  \<^item> \<open>Drain\<close>: a task that receives until it fails, on an association that ends, gets what was queued and ends,
    and every later receive fails at once, provided that the reactor keeps a readiness until it is cleared
    (\<open>keeps_readiness\<close>) and nothing more is queued (\<open>queue_empty\<close>).
  \<^item> \<open>Objects\<close>: the values an association or a server can have (\<open>assoc_lives\<close>, \<open>server_lives\<close>, inductive
    over the constructors and methods) and that all of them are sound.
  \<^item> \<open>Net_Text\<close>: \<open>FromStr\<close> and \<open>Display\<close> of \<open>std::net::SocketAddr\<close>; parsing inverts printing.
  \<^item> \<open>Python\<close>: \<open>python.rs\<close>, every class, method and function; addresses as text, errors, configuration, the
    runtime over any sequence of calls (\<open>py_call\<close>, an inductive relation), the module.
  \<^item> \<open>Loops\<close>: the receives that are loops around a receive, as the source writes them (\<open>await_loop\<close>, with its
    termination), that they are the receives of the other theories, and what the Python server's returns.
  \<^item> \<open>Echo\<close>: the echo services of \<open>examples/many_echo.rs\<close>, \<open>perf.rs\<close> and \<open>leak_check.rs\<close>, clients of the
    crate. Locale \<open>echo_service\<close>, which extends \<open>receiver\<close> with a send: every message goes back once; it is
    interpreted on the one-to-many service and on the task of an association.
  \<^item> \<open>Conversation\<close>: a client, the one-to-many echo service and the network between them, composed.
  \<^item> \<open>Unit_Tests\<close>: the unit tests of \<open>recv.rs\<close> and \<open>ppid.rs\<close>, which pass on the model.
  \<^item> \<open>Leak_Check\<close>: the counting allocator of \<open>leak_check.rs\<close>, the system's allocator a parameter; its calls
    interleave, a fifth interpretation of \<open>shared_socket\<close>, with bytes as what balances.
  \<^item> \<open>Clients\<close>: \<open>echo_client.rs\<close>, \<open>echo_server.rs\<close>, the client of \<open>perf.rs\<close> and the traffic of \<open>leak_check.rs\<close>
    as sequences of awaits. Rules for awaits that keep a descriptor (\<open>tame\<close>) and for blocks that own one
    (\<open>settled\<close>) show that they close what they open; the accepting loops hand every association to one task;
    the echo server sends back a subsequence of what it received.
  \<^item> This theory: a message from one end to the other.

  \<^bold>\<open>What the proofs showed of the code.\<close> The association of a failed send is read from the field that
  holds the error code (\<open>send_failed_reports_error_code\<close>); the accumulator of a server mixes the parts of
  a lost association into the next message (\<open>parts_of_a_lost_association_stay\<close>); a failing registration
  closes the descriptor of a listener or server twice (\<open>bind_closes_twice\<close>); accept and peeloff can leave a
  descriptor open on an error (\<open>accept_leaks\<close>, \<open>peeloff_descriptors\<close>); buffer sizes from \<open>2 ^ 31\<close> on are
  truncated (\<open>buffer_size_truncation\<close>); the types of a send failure and of a remote error are numbered as FreeBSD
  does, not as Linux does (of which the repository has no header, so nothing is proved); of two concurrent receives the one that finds nothing can miss the end
  of the association and wait (\<open>ended_receive_waits\<close>).

  \<^bold>\<open>What is not modelled.\<close> \<open>lib.rs\<close>, which only declares modules; the \<open>extern\<close> declarations of \<open>sys.rs\<close>,
  which are the parameters above; the integration tests; the Python stubs; what the examples print and how they take time. The
  turns treat the code between two awaits as one action; \<open>Tasks\<close> and \<open>Server_Tasks\<close> take the receives and sends
  apart, the connect and the accept are not taken apart, since no other task reaches the descriptor of a pending
  connect and an accept touches nothing that is shared but the kernel. The examples' tasks are modelled one by
  one, each with the others as part of its world. Failed allocations, of Rust or of Python objects, alignment
  of the casts in \<open>parse_notification\<close> and the life of the memory behind raw pointers are below the level of
  the model.

  \<^bold>\<open>Plan.\<close> The implementation is modelled; what is left is listed above.
\<close>

section \<open>From one end to the other\<close>

text \<open>
  C1: a message goes from one end to the other unchanged. If \<open>send_with\<close> returns a length and the
  network carries the message it handed over, then \<open>recv\<close> of the far association, with nothing left of
  an earlier message, returns after as many polls as there are chunks: the data whole and in order, the
  sender's stream and the sender's protocol identifier, between hosts of any two byte orders, however the
  message was cut into parts and whatever notifications came between them.
\<close>

theorem message_end_to_end:
  assumes "send_with K1 n data sid pp opts (a, s) = (Return (Inr m), a', s')"
    and "recvmsg_ok K2" and "reassembly_inv (recv_state b)" and "buf (recv_state b) = []"
    and "delivers K2 False (inner b) (kern r) cs"
    and "carried (target_endian K1) (target_endian K2) (last (filter taken (trace s'))) cs"
  shows "\<exists>info b' r'. recv K2 (length cs) (b, r) = (Return (Inr (data, info)), b', r')
    \<and> stream info = sid \<and> ppid info = pp \<and> buf (recv_state b') = []"
proof -
  have "last (filter taken (trace s')) = sendmsg_entry (target_endian K1) data sid pp opts (inner a) m"
    using assoc_send.run_accepted [OF assms(1) [unfolded send_with_def]] by (simp add: accepted_by_def)
  with assms(6) have c: "is_record is_last_chunk (filter is_data_chunk cs)" "is_data_chunk (last cs)"
      "concat (map fst (filter is_data_chunk cs)) = data"
    and w: "case last cs of (d, fl, sinfo, addr) \<Rightarrow> sinfo_stream sinfo = sid
      \<and> ne_bytes (target_endian K2) 4 (sinfo_ppid sinfo) = ne_bytes (target_endian K1) 4 (to_be (target_endian K1) 4 pp)"
    by (simp_all add: sendmsg_entry_def)
  obtain d fl sinfo addr where l: "last cs = (d, fl, sinfo, addr)" by (cases "last cs")
  have "stream (info_of (target_endian K2) sinfo) = sid \<and> ppid (info_of (target_endian K2) sinfo) = pp"
    using w l ppid_from_wire [of "target_endian K2" sinfo "target_endian K1" pp] by (simp add: info_of_def)
  with recv_delivers [OF assms(2,3) _ c(1,2), where s = r and rest = "[]"] assms(4,5) c(3) l show ?thesis by auto
qed

theorem message_end_to_end_witness:
  "\<exists>info b' r'. recv sample_kernel 3 (new_association 3, sample_sys sample_queue 0) = (Return (Inr ([170, 187, 188], info)), b', r')
    \<and> stream info = 7 \<and> ppid info = 18 \<and> buf (recv_state b') = []"
proof -
  let ?cs = "[([170], 0, sample_sinfo, None), ([0, 0, 0, 0], MSG_NOTIFICATION, sample_sinfo, None),
    ([187, 188], MSG_EOR, sample_sinfo, None)] :: chunk list"
  obtain s' where c: "send_with sample_kernel 1 [170, 187, 188] 7 18 default_SendOptions
      (new_association 3, sample_sys [] 1) = (Return (Inr 3), new_association 3, s')"
    and l: "last (filter taken (trace s')) = Call_sendmsg 3 [170, 187, 188] (to_be Little 4 18) 0 7 0 0 3"
    by (simp add: send_with_def send_with_turn_def poll_ready_def syscall_def sample_defs new_association_def neg_def
        opts_sinfo_flags_def default_SendOptions_def)
  have inv: "reassembly_inv (recv_state (new_association 3))" "buf (recv_state (new_association 3)) = []"
    by (simp_all add: new_association_def reassembly_inv_default) (simp add: default_Reassembly_def)
  have del: "delivers sample_kernel False (inner (new_association 3)) (kern (sample_sys sample_queue 0)) ?cs"
    by (simp only: new_association_def SctpAssociation.simps sample_delivers)
  have car: "carried (target_endian sample_kernel) (target_endian sample_kernel) (last (filter taken (trace s'))) ?cs"
    by (simp add: l is_record_def MSG_EOR_def MSG_NOTIFICATION_def sample_sinfo_def default_SctpSndRcvInfo_def)
  have n: "length ?cs = 3" by simp
  show ?thesis using message_end_to_end [OF c sample_recvmsg_ok inv del car] unfolding n .
qed

end
